theory Spec2Isabelle
  imports Complex_Main
begin

section \<open>Territory war: the per-frame simulation of \<open>src/app/page.tsx\<close>\<close>

text \<open>
  The embedding follows \<open>gameLoop\<close> and its helpers. JavaScript numbers that hold
  coordinates, velocities and radii are modelled as \<open>real\<close> (rounding of doubles is not
  modelled); the frame counters and effect timers, which only ever hold integers, are
  \<open>nat\<close> and \<open>int\<close>. Drawing calls are left out: they read the state and write only the
  canvas. \<open>Math.random()\<close> and \<open>Date.now()\<close> are inputs of the frame.
\<close>

subsection \<open>Data model\<close>

datatype Team = Left | Right

text \<open>At run time a team is the string \<open>"left"\<close> or \<open>"right"\<close>; two places of the loop
  compare it with other string literals.\<close>

fun teamString :: "Team \<Rightarrow> string" where
  "teamString Left = ''left''"
| "teamString Right = ''right''"

datatype PowerUpType = Split | Giant | Speed | Freeze | Magnet

record Ball =
  ball_id :: nat
  ball_x :: real
  ball_y :: real
  vx :: real
  vy :: real
  team :: Team
  radius :: real
  baseRadius :: real
  trail :: "(real \<times> real) list"
  frozen :: int
  giant :: int
  speed :: int
  isClone :: bool
  cloneExpires :: int

record PowerUp =
  pu_id :: nat
  pu_x :: real
  pu_y :: real
  pu_type :: PowerUpType
  spawnTime :: real

datatype Tile = Tile (tile_team: Team)

definition COLS :: nat where "COLS = 20"
definition ROWS :: nat where "ROWS = 12"
definition TRAIL_LENGTH :: nat where "TRAIL_LENGTH = 12"
definition BASE_SPEED :: real where "BASE_SPEED = 4"
definition POWERUP_DURATION :: int where "POWERUP_DURATION = 180"
definition POWERUP_SPAWN_INTERVAL :: nat where "POWERUP_SPAWN_INTERVAL = 300"
definition HIGHSCORE_DELAY :: nat where "HIGHSCORE_DELAY = 600"

text \<open>The inputs of one frame: the \<open>dimensions\<close> and \<open>speedMultiplier\<close> of the component's
  state, the clock, the three \<open>Math.random()\<close> draws of \<open>spawnPowerUp\<close>, and the draw of the
  heading change, given per position of the ball in \<open>ballsRef.current\<close> (a ball draws at most
  once in a frame).\<close>

record FrameInput =
  width :: real
  height :: real
  speedMultiplier :: real
  now :: real
  rndX :: real
  rndY :: real
  rndType :: real
  rndAngle :: "nat \<Rightarrow> real"

definition tileWidth :: "FrameInput \<Rightarrow> real" where
  "tileWidth inp = width inp / real COLS"

definition tileHeight :: "FrameInput \<Rightarrow> real" where
  "tileHeight inp = height inp / real ROWS"

text \<open>The state that lives across frames: the refs of the component and the two module
  counters. \<open>highScores\<close> is the pair \<open>(left, right)\<close>.\<close>

record GameState =
  tiles :: "Tile list list"
  balls :: "Ball list"
  powerUps :: "PowerUp list"
  frameCount :: nat
  highScores :: "nat \<times> nat"
  ballIdCounter :: nat
  powerUpIdCounter :: nat

subsection \<open>Initial state\<close>

definition createInitialTiles :: "Tile list list" where
  "createInitialTiles =
     map (\<lambda>row. map (\<lambda>col. Tile (if real col < real COLS / 2 then Left else Right)) [0..<COLS])
       [0..<ROWS]"

text \<open>\<open>createInitialBalls\<close>, with the two random draws and the id counter passed in; it
  returns the balls and the counter after the two increments.\<close>

definition createInitialBalls :: "real \<Rightarrow> real \<Rightarrow> real \<Rightarrow> real \<Rightarrow> nat \<Rightarrow> Ball list \<times> nat" where
  "createInitialBalls tw th r1 r2 ctr =
     (let base = min tw th * 0.4 in
      ([\<lparr>ball_id = ctr, ball_x = real COLS * 0.25 * tw, ball_y = (real ROWS / 2) * th,
         vx = BASE_SPEED, vy = (r1 - 0.5) * 2, team = Left, radius = base, baseRadius = base,
         trail = [], frozen = 0, giant = 0, speed = 0, isClone = False, cloneExpires = 0\<rparr>,
        \<lparr>ball_id = ctr + 1, ball_x = real COLS * 0.75 * tw, ball_y = (real ROWS / 2) * th,
         vx = - BASE_SPEED, vy = (r2 - 0.5) * 2, team = Right, radius = base, baseRadius = base,
         trail = [], frozen = 0, giant = 0, speed = 0, isClone = False, cloneExpires = 0\<rparr>],
       ctr + 2))"

text \<open>The state when \<open>gameLoop\<close> first runs: the refs as initialised, the balls created by
  the effect that waits for positive tile sizes.\<close>

definition initialState :: "real \<Rightarrow> real \<Rightarrow> real \<Rightarrow> real \<Rightarrow> GameState" where
  "initialState tw th r1 r2 =
     (let (bs, ctr) = createInitialBalls tw th r1 r2 0 in
      \<lparr>tiles = createInitialTiles, balls = bs, powerUps = [], frameCount = 0,
       highScores = (COLS * ROWS div 2, COLS * ROWS div 2),
       ballIdCounter = ctr, powerUpIdCounter = 0\<rparr>)"

subsection \<open>Power-up spawn\<close>

definition powerUpTypes :: "PowerUpType list" where
  "powerUpTypes = [Split, Giant, Speed, Freeze, Magnet]"

definition spawnPowerUp :: "FrameInput \<Rightarrow> nat \<Rightarrow> PowerUp" where
  "spawnPowerUp inp ctr =
     \<lparr>pu_id = ctr,
      pu_x = rndX inp * (width inp - 60) + 30,
      pu_y = rndY inp * (height inp - 60) + 30,
      pu_type = powerUpTypes ! nat \<lfloor>rndType inp * real (length powerUpTypes)\<rfloor>,
      spawnTime = now inp\<rparr>"

text \<open>Lines 244--246: the spawn step of the frame whose counter is \<open>fc\<close> (already
  incremented); it returns the registry and the id counter.\<close>

definition trySpawn :: "FrameInput \<Rightarrow> nat \<Rightarrow> PowerUp list \<Rightarrow> nat \<Rightarrow> PowerUp list \<times> nat" where
  "trySpawn inp fc ps ctr =
     (if fc mod POWERUP_SPAWN_INTERVAL = 0 \<and> length ps < 3
      then (ps @ [spawnPowerUp inp ctr], ctr + 1)
      else (ps, ctr))"

subsection \<open>One ball, before the pickups\<close>

text \<open>Lines 271--274. \<open>None\<close> is the \<open>continue\<close> that drops the ball from \<open>newBalls\<close>.\<close>

definition cloneExpiry :: "Ball \<Rightarrow> Ball option" where
  "cloneExpiry b =
     (if isClone b \<and> cloneExpires b > 0
      then (let b' = b\<lparr>cloneExpires := cloneExpires b - 1\<rparr>
            in if cloneExpires b' \<le> 0 then None else Some b')
      else Some b)"

text \<open>Lines 277--282.\<close>

definition decTimers :: "Ball \<Rightarrow> Ball" where
  "decTimers b =
     (let b1 = (if frozen b > 0 then b\<lparr>frozen := frozen b - 1\<rparr> else b);
          b2 = (if giant b1 > 0
                then (let g = giant b1 - 1
                      in b1\<lparr>giant := g,
                            radius := (if g > 0 then baseRadius b1 * 2.5 else baseRadius b1)\<rparr>)
                else b1);
          b3 = (if speed b2 > 0 then b2\<lparr>speed := speed b2 - 1\<rparr> else b2)
      in b3)"

text \<open>Lines 285--288.\<close>

definition updateTrail :: "Ball \<Rightarrow> Ball" where
  "updateTrail b =
     (let t = trail b @ [(ball_x b, ball_y b)]
      in b\<lparr>trail := (if length t > TRAIL_LENGTH then tl t else t)\<rparr>)"

text \<open>Lines 297--317. The magnet pull is the constant 0 in the source (the code around it
  computes values that are never used).\<close>

definition moveBall :: "FrameInput \<Rightarrow> Ball \<Rightarrow> Ball" where
  "moveBall inp b =
     (let speedMult = (if speed b > 0 then 2.5 else 1) * speedMultiplier inp;
          magnetPullX = 0;
          magnetPullY = 0
      in b\<lparr>ball_x := ball_x b + (vx b + magnetPullX) * speedMult,
           ball_y := ball_y b + (vy b + magnetPullY) * speedMult\<rparr>)"

text \<open>Lines 320--335: four independent tests, in this order.\<close>

definition reflectLeft :: "Ball \<Rightarrow> Ball" where
  "reflectLeft b =
     (if ball_x b - radius b < 0 then b\<lparr>ball_x := radius b, vx := \<bar>vx b\<bar>\<rparr> else b)"

definition reflectRight :: "FrameInput \<Rightarrow> Ball \<Rightarrow> Ball" where
  "reflectRight inp b =
     (if ball_x b + radius b > width inp
      then b\<lparr>ball_x := width inp - radius b, vx := - \<bar>vx b\<bar>\<rparr> else b)"

definition reflectTop :: "Ball \<Rightarrow> Ball" where
  "reflectTop b =
     (if ball_y b - radius b < 0 then b\<lparr>ball_y := radius b, vy := \<bar>vy b\<bar>\<rparr> else b)"

definition reflectBottom :: "FrameInput \<Rightarrow> Ball \<Rightarrow> Ball" where
  "reflectBottom inp b =
     (if ball_y b + radius b > height inp
      then b\<lparr>ball_y := height inp - radius b, vy := - \<bar>vy b\<bar>\<rparr> else b)"

definition boundary :: "FrameInput \<Rightarrow> Ball \<Rightarrow> Ball" where
  "boundary inp b = reflectBottom inp (reflectTop (reflectRight inp (reflectLeft b)))"

subsection \<open>Power-up pickups of one ball\<close>

text \<open>
  \<open>newBalls\<close> holds references: to objects that are also in \<open>ballsRef.current\<close> (the balls
  pushed at the end of their turn) and to the clones created in this frame. The freeze
  effect mutates the objects of \<open>ballsRef.current\<close>, whether or not they were already pushed,
  and cannot reach this frame's clones. So an entry of \<open>newBalls\<close> is \<open>Old i\<close>, the object at
  position \<open>i\<close> of \<open>ballsRef.current\<close>, or \<open>New b\<close>; the entries of \<open>ballsRef.current\<close> are
  distinct objects (each is pushed to \<open>newBalls\<close> at most once, clones are fresh).
\<close>

datatype BallRef = Old nat | New Ball

fun deref :: "Ball list \<Rightarrow> BallRef \<Rightarrow> Ball" where
  "deref bs (Old i) = bs ! i"
| "deref bs (New b) = b"

text \<open>What the pickup loop of a ball reads and writes: the ball, the objects of
  \<open>ballsRef.current\<close>, \<open>newBalls\<close>, \<open>ballIdCounter\<close> and \<open>powerUpsToRemove\<close>.\<close>

record Pick =
  pk_ball :: Ball
  pk_balls :: "Ball list"
  pk_newBalls :: "BallRef list"
  pk_ballIdCounter :: nat
  pk_toRemove :: "nat list"

text \<open>Lines 340--344.\<close>

definition inRange :: "Ball \<Rightarrow> PowerUp \<Rightarrow> bool" where
  "inRange b p =
     (let dx = ball_x b - pu_x p;
          dy = ball_y b - pu_y p;
          dist = sqrt (dx * dx + dy * dy)
      in dist < radius b + 14)"

text \<open>Lines 350--365.\<close>

definition makeClone :: "nat \<Rightarrow> Ball \<Rightarrow> Ball" where
  "makeClone ctr b =
     \<lparr>ball_id = ctr, ball_x = ball_x b, ball_y = ball_y b, vx = - vy b, vy = vx b,
      team = team b, radius = baseRadius b * 0.7, baseRadius = baseRadius b * 0.7,
      trail = [], frozen = 0, giant = 0, speed = 0, isClone = True,
      cloneExpires = POWERUP_DURATION * 2\<rparr>"

text \<open>Lines 387--394. The source compares the team with the literal \<open>"white"\<close>.\<close>

definition magnetTargetX :: "FrameInput \<Rightarrow> Ball \<Rightarrow> real" where
  "magnetTargetX inp b =
     (if teamString (team b) = ''white'' then width inp * 0.75 else width inp * 0.25)"

definition magnetEffect :: "FrameInput \<Rightarrow> Ball \<Rightarrow> Ball" where
  "magnetEffect inp b =
     (let targetX = magnetTargetX inp b;
          dx = targetX - ball_x b;
          dy = height inp / 2 - ball_y b;
          dist = sqrt (dx * dx + dy * dy)
      in if dist > 0
         then b\<lparr>vx := (dx / dist) * BASE_SPEED * 1.5, vy := (dy / dist) * BASE_SPEED * 0.5\<rparr>
         else b)"

text \<open>Lines 347--397, the \<open>switch\<close>.\<close>

fun applyEffect :: "FrameInput \<Rightarrow> PowerUpType \<Rightarrow> Pick \<Rightarrow> Pick" where
  "applyEffect inp Split pk =
     pk\<lparr>pk_newBalls := pk_newBalls pk @ [New (makeClone (pk_ballIdCounter pk) (pk_ball pk))],
        pk_ballIdCounter := pk_ballIdCounter pk + 1\<rparr>"
| "applyEffect inp Giant pk =
     pk\<lparr>pk_ball := (pk_ball pk)\<lparr>giant := POWERUP_DURATION,
                                radius := baseRadius (pk_ball pk) * 2.5\<rparr>\<rparr>"
| "applyEffect inp Speed pk =
     pk\<lparr>pk_ball := (pk_ball pk)\<lparr>speed := POWERUP_DURATION\<rparr>\<rparr>"
| "applyEffect inp Freeze pk =
     pk\<lparr>pk_balls := map (\<lambda>other. if team other \<noteq> team (pk_ball pk)
                                  then other\<lparr>frozen := POWERUP_DURATION\<rparr> else other)
                         (pk_balls pk)\<rparr>"
| "applyEffect inp Magnet pk =
     pk\<lparr>pk_ball := magnetEffect inp (pk_ball pk)\<rparr>"

text \<open>Lines 338--399: the loop over \<open>powerUpsRef.current\<close>, which is not changed until the
  loop is over.\<close>

fun pickupLoop :: "FrameInput \<Rightarrow> PowerUp list \<Rightarrow> Pick \<Rightarrow> Pick" where
  "pickupLoop inp [] pk = pk"
| "pickupLoop inp (p # ps) pk =
     pickupLoop inp ps
       (if inRange (pk_ball pk) p
        then applyEffect inp (pu_type p) (pk\<lparr>pk_toRemove := pk_toRemove pk @ [pu_id p]\<rparr>)
        else pk)"

subsection \<open>Tile conversion and heading change\<close>

text \<open>Lines 411--419, one cell of the block, on \<open>newTiles\<close> and \<open>hasChanges\<close>.\<close>

definition convertCell :: "Team \<Rightarrow> int \<Rightarrow> int \<Rightarrow> Tile list list \<times> bool \<Rightarrow> Tile list list \<times> bool" where
  "convertCell t r c gc =
     (if r \<ge> 0 \<and> r < int ROWS \<and> c \<ge> 0 \<and> c < int COLS
      then (if tile_team (fst gc ! nat r ! nat c) \<noteq> t
            then ((fst gc)[nat r := (fst gc ! nat r)[nat c := Tile t]], True)
            else gc)
      else gc)"

text \<open>Lines 404--405. The quotient is the exact real one; where the rounding of the
  double division crosses an integer the code's cell can differ by one.\<close>

definition cellCol :: "FrameInput \<Rightarrow> Ball \<Rightarrow> int" where
  "cellCol inp b = \<lfloor>ball_x b / tileWidth inp\<rfloor>"

definition cellRow :: "FrameInput \<Rightarrow> Ball \<Rightarrow> int" where
  "cellRow inp b = \<lfloor>ball_y b / tileHeight inp\<rfloor>"

text \<open>Lines 404--421.\<close>

definition convertTiles :: "FrameInput \<Rightarrow> Ball \<Rightarrow> Tile list list \<times> bool \<Rightarrow> Tile list list \<times> bool" where
  "convertTiles inp b gc =
     (let col = cellCol inp b;
          row = cellRow inp b;
          convertRadius = (if giant b > 0 then 2 else 1 :: int)
      in foldl (\<lambda>acc (dr, dc). convertCell (team b) (row + dr) (col + dc) acc) gc
           (List.product [- convertRadius + 1 .. convertRadius - 1]
                         [- convertRadius + 1 .. convertRadius - 1]))"

text \<open>Lines 424--431. \<open>tilesRef\<close> is \<open>tilesRef.current\<close>, which the ball loop does not assign;
  \<open>i\<close> selects the random draw.\<close>

definition redirect :: "FrameInput \<Rightarrow> Tile list list \<Rightarrow> nat \<Rightarrow> Ball \<Rightarrow> Ball" where
  "redirect inp tilesRef i b =
     (let col = cellCol inp b;
          row = cellRow inp b
      in if row \<ge> 0 \<and> row < int ROWS \<and> col \<ge> 0 \<and> col < int COLS
         then (if tile_team (tilesRef ! nat row ! nat col) \<noteq> team b
               then (let angle = rndAngle inp i * pi * 2;
                         currentSpeed = sqrt (vx b * vx b + vy b * vy b)
                     in b\<lparr>vx := cos angle * currentSpeed, vy := sin angle * currentSpeed\<rparr>)
               else b)
         else b)"

subsection \<open>The ball loop\<close>

record Loop =
  l_balls :: "Ball list"
  l_newBalls :: "BallRef list"
  l_powerUps :: "PowerUp list"
  l_newTiles :: "Tile list list"
  l_hasChanges :: bool
  l_ballIdCounter :: nat

text \<open>The pickup state of the ball at position \<open>i\<close> when its turn reaches line 338, or
  \<open>None\<close> when the turn ends before (clone expired, or frozen).\<close>

definition startPick :: "FrameInput \<Rightarrow> nat \<Rightarrow> Loop \<Rightarrow> Pick option" where
  "startPick inp i st =
     (case cloneExpiry (l_balls st ! i) of
        None \<Rightarrow> None
      | Some b1 \<Rightarrow>
          (let b2 = updateTrail (decTimers b1)
           in if frozen b2 > 0 then None
              else Some \<lparr>pk_ball = boundary inp (moveBall inp b2), pk_balls = l_balls st,
                         pk_newBalls = l_newBalls st, pk_ballIdCounter = l_ballIdCounter st,
                         pk_toRemove = []\<rparr>))"

text \<open>Lines 269--434, the turn of the ball at position \<open>i\<close> of \<open>ballsRef.current\<close>. The ball
  is held in a local value and written back at the end of the turn; in between, the only
  writes to \<open>ballsRef.current\<close> are those of the freeze effect, which skips the ball itself
  (its team is not different from its own).\<close>

definition processBall :: "FrameInput \<Rightarrow> Tile list list \<Rightarrow> nat \<Rightarrow> Loop \<Rightarrow> Loop" where
  "processBall inp tilesRef i st =
     (let ball = l_balls st ! i in
      case cloneExpiry ball of
        None \<Rightarrow> st\<lparr>l_balls := (l_balls st)[i := ball\<lparr>cloneExpires := cloneExpires ball - 1\<rparr>]\<rparr>
      | Some b1 \<Rightarrow>
          (let b2 = updateTrail (decTimers b1)
           in if frozen b2 > 0
              then st\<lparr>l_balls := (l_balls st)[i := b2], l_newBalls := l_newBalls st @ [Old i]\<rparr>
              else
                (let b3 = boundary inp (moveBall inp b2);
                     pk = pickupLoop inp (l_powerUps st)
                            \<lparr>pk_ball = b3, pk_balls = l_balls st, pk_newBalls = l_newBalls st,
                             pk_ballIdCounter = l_ballIdCounter st, pk_toRemove = []\<rparr>;
                     b4 = pk_ball pk;
                     gc = convertTiles inp b4 (l_newTiles st, l_hasChanges st);
                     b5 = redirect inp tilesRef i b4
                 in \<lparr>l_balls = (pk_balls pk)[i := b5],
                     l_newBalls = pk_newBalls pk @ [Old i],
                     l_powerUps = filter (\<lambda>p. pu_id p \<notin> set (pk_toRemove pk)) (l_powerUps st),
                     l_newTiles = fst gc,
                     l_hasChanges = snd gc,
                     l_ballIdCounter = pk_ballIdCounter pk\<rparr>)))"

text \<open>The first \<open>k\<close> turns of the loop, and the whole loop.\<close>

definition ballLoopUpto :: "FrameInput \<Rightarrow> Tile list list \<Rightarrow> Loop \<Rightarrow> nat \<Rightarrow> Loop" where
  "ballLoopUpto inp tilesRef st k = foldl (\<lambda>acc i. processBall inp tilesRef i acc) st [0..<k]"

definition ballLoop :: "FrameInput \<Rightarrow> Tile list list \<Rightarrow> Loop \<Rightarrow> Loop" where
  "ballLoop inp tilesRef st = ballLoopUpto inp tilesRef st (length (l_balls st))"

subsection \<open>Scores and the frame\<close>

text \<open>Lines 203--213: the pair \<open>(left, right)\<close>.\<close>

definition countTiles :: "Tile list list \<Rightarrow> nat \<times> nat" where
  "countTiles g =
     foldl (\<lambda>(l, r) (row, col).
              if tile_team (g ! row ! col) = Left then (l + 1, r) else (l, r + 1))
       (0, 0) (List.product [0..<ROWS] [0..<COLS])"

text \<open>Lines 549--556.\<close>

definition updateHighScores :: "nat \<Rightarrow> nat \<times> nat \<Rightarrow> nat \<times> nat \<Rightarrow> nat \<times> nat" where
  "updateHighScores fc counts hs =
     (if fc > HIGHSCORE_DELAY
      then (if fst counts > fst hs then fst counts else fst hs,
            if snd counts > snd hs then snd counts else snd hs)
      else hs)"

text \<open>The state of the ball loop when it starts, after the spawn step.\<close>

definition initLoop :: "FrameInput \<Rightarrow> GameState \<Rightarrow> Loop" where
  "initLoop inp s =
     \<lparr>l_balls = balls s, l_newBalls = [],
      l_powerUps = fst (trySpawn inp (frameCount s + 1) (powerUps s) (powerUpIdCounter s)),
      l_newTiles = tiles s, l_hasChanges = False, l_ballIdCounter = ballIdCounter s\<rparr>"

text \<open>One call of \<open>gameLoop\<close> in which the canvas and its context exist (otherwise the
  call returns at once and no further frame is requested). The component requests frames
  only while \<open>width\<close> and \<open>height\<close> are positive.\<close>

definition gameLoop :: "FrameInput \<Rightarrow> GameState \<Rightarrow> GameState" where
  "gameLoop inp s =
     (let fc = frameCount s + 1;
          st = ballLoop inp (tiles s) (initLoop inp s);
          tiles' = (if l_hasChanges st then l_newTiles st else tiles s)
      in \<lparr>tiles = tiles',
          balls = map (deref (l_balls st)) (l_newBalls st),
          powerUps = l_powerUps st,
          frameCount = fc,
          highScores = updateHighScores fc (countTiles tiles') (highScores s),
          ballIdCounter = l_ballIdCounter st,
          powerUpIdCounter = snd (trySpawn inp fc (powerUps s) (powerUpIdCounter s))\<rparr>)"

fun run :: "FrameInput list \<Rightarrow> GameState \<Rightarrow> GameState" where
  "run [] s = s"
| "run (inp # inps) s = run inps (gameLoop inp s)"

subsection \<open>Observations on a run\<close>

text \<open>The power-ups whose effect the pickup loop applies, in the order of application:
  those for which the test of line 344 succeeds.\<close>

fun picked :: "FrameInput \<Rightarrow> PowerUp list \<Rightarrow> Pick \<Rightarrow> PowerUp list" where
  "picked inp [] pk = []"
| "picked inp (p # ps) pk =
     (if inRange (pk_ball pk) p
      then p # picked inp ps
                 (applyEffect inp (pu_type p) (pk\<lparr>pk_toRemove := pk_toRemove pk @ [pu_id p]\<rparr>))
      else picked inp ps pk)"

definition pickedBy :: "FrameInput \<Rightarrow> nat \<Rightarrow> Loop \<Rightarrow> PowerUp list" where
  "pickedBy inp i st =
     (case startPick inp i st of None \<Rightarrow> [] | Some pk \<Rightarrow> picked inp (l_powerUps st) pk)"

text \<open>The pickups of a whole frame, ball after ball, and of a run, frame after frame.\<close>

definition framePicked :: "FrameInput \<Rightarrow> GameState \<Rightarrow> PowerUp list" where
  "framePicked inp s =
     concat (map (\<lambda>i. pickedBy inp i (ballLoopUpto inp (tiles s) (initLoop inp s) i))
               [0..<length (balls s)])"

fun runPicked :: "FrameInput list \<Rightarrow> GameState \<Rightarrow> PowerUp list" where
  "runPicked [] s = []"
| "runPicked (inp # inps) s = framePicked inp s @ runPicked inps (gameLoop inp s)"

text \<open>Well-formedness of the grid: \<open>ROWS\<close> rows of \<open>COLS\<close> cells, so that every index the
  loops compute within the bounds checks is an existing cell.\<close>

definition gridOk :: "Tile list list \<Rightarrow> bool" where
  "gridOk g = (length g = ROWS \<and> list_all (\<lambda>row. length row = COLS) g)"

subsection \<open>Auxiliary notions and concrete inputs\<close>

text \<open>\<open>touch b b'\<close>: the object \<open>b\<close> is unchanged or has been frozen by a pickup of another
  ball; this is all that the turn of one ball does to the other objects.\<close>

definition touch :: "Ball \<Rightarrow> Ball \<Rightarrow> bool" where
  "touch b b' = (b' = b \<or> b' = b\<lparr>frozen := POWERUP_DURATION\<rparr>)"

definition world :: FrameInput where
  "world = \<lparr>width = 800, height = 480, speedMultiplier = 1, now = 0, rndX = 1/2, rndY = 1/2,
     rndType = 0, rndAngle = (\<lambda>_. 1/2)\<rparr>"

definition narrowWorld :: FrameInput where
  "narrowWorld = \<lparr>width = 150, height = 1080, speedMultiplier = 1, now = 0, rndX = 1/2,
     rndY = 1/2, rndType = 0, rndAngle = (\<lambda>_. 1/2)\<rparr>"

definition tinyWorld :: FrameInput where
  "tinyWorld = \<lparr>width = 50, height = 400, speedMultiplier = 1, now = 0, rndX = 1/2, rndY = 1/2,
     rndType = 0, rndAngle = (\<lambda>_. 1/2)\<rparr>"

definition mkBall :: "nat \<Rightarrow> Team \<Rightarrow> real \<Rightarrow> real \<Rightarrow> real \<Rightarrow> real \<Rightarrow> real \<Rightarrow> Ball" where
  "mkBall n t px py pvx pvy r =
     \<lparr>ball_id = n, ball_x = px, ball_y = py, vx = pvx, vy = pvy, team = t, radius = r,
      baseRadius = r, trail = [], frozen = 0, giant = 0, speed = 0, isClone = False,
      cloneExpires = 0\<rparr>"

text \<open>Ball ids are unique and below the counter.\<close>

definition idsOk :: "GameState \<Rightarrow> bool" where
  "idsOk s = (distinct (map ball_id (balls s)) \<and> (\<forall>b \<in> set (balls s). ball_id b < ballIdCounter s))"

text \<open>The shape of \<open>newBalls\<close> after \<open>k\<close> turns, relative to the balls \<open>bs\<close> and the
  counter \<open>ctr0\<close> at the start of the loop: the entries have distinct ids, an \<open>Old j\<close> is
  a ball whose turn is over and that did not expire, and every such ball is there; a
  \<open>New c\<close> has an id issued in this frame.\<close>

definition refsOk :: "Ball list \<Rightarrow> nat \<Rightarrow> nat \<Rightarrow> nat \<Rightarrow> BallRef list \<Rightarrow> bool" where
  "refsOk bs ctr0 ctr k refs =
     (distinct (map (\<lambda>r. ball_id (deref bs r)) refs) \<and>
      (\<forall>r \<in> set refs. case r of
           Old j \<Rightarrow> j < k \<and> cloneExpiry (bs ! j) \<noteq> None
         | New c \<Rightarrow> ctr0 \<le> ball_id c \<and> ball_id c < ctr) \<and>
      (\<forall>j < k. cloneExpiry (bs ! j) \<noteq> None \<longrightarrow> Old j \<in> set refs))"

definition freezeState :: GameState where
  "freezeState =
     \<lparr>tiles = createInitialTiles,
      balls = [mkBall 0 Left 100 240 4 0 16, mkBall 1 Right 600 240 (- 4) 0 16],
      powerUps = [\<lparr>pu_id = 0, pu_x = 104, pu_y = 240, pu_type = Freeze, spawnTime = 0\<rparr>],
      frameCount = 1, highScores = (120, 120), ballIdCounter = 2, powerUpIdCounter = 1\<rparr>"

text \<open>Power-up ids are unique and below the counter.\<close>

definition puOk :: "GameState \<Rightarrow> bool" where
  "puOk s = (distinct (map pu_id (powerUps s)) \<and>
             (\<forall>p \<in> set (powerUps s). pu_id p < powerUpIdCounter s))"

text \<open>The pickups of the first \<open>k\<close> turns of a ball loop.\<close>

definition pickedUpto :: "FrameInput \<Rightarrow> Tile list list \<Rightarrow> Loop \<Rightarrow> nat \<Rightarrow> PowerUp list" where
  "pickedUpto inp tr st k =
     concat (map (\<lambda>i. pickedBy inp i (ballLoopUpto inp tr st i)) [0..<k])"

definition redirectState :: GameState where
  "redirectState =
     \<lparr>tiles = createInitialTiles,
      balls = [mkBall 0 Left 416 100 4 0 16,
               (mkBall 2 Left 430 90 0 4 (56 / 5))\<lparr>isClone := True, cloneExpires := 300\<rparr>],
      powerUps = [],
      frameCount = 1, highScores = (120, 120), ballIdCounter = 3, powerUpIdCounter = 0\<rparr>"

definition reconvertState :: GameState where
  "reconvertState =
     \<lparr>tiles = createInitialTiles,
      balls = [mkBall 1 Right 396 100 (- 4) 0 16, mkBall 0 Left 390 90 0 4 16],
      powerUps = [],
      frameCount = 1, highScores = (120, 120), ballIdCounter = 2, powerUpIdCounter = 0\<rparr>"

definition splitState :: GameState where
  "splitState =
     \<lparr>tiles = createInitialTiles,
      balls = [mkBall 0 Left 100 240 4 0 16, mkBall 1 Right 600 240 (- 4) 0 16],
      powerUps = [\<lparr>pu_id = 0, pu_x = 104, pu_y = 240, pu_type = Split, spawnTime = 0\<rparr>],
      frameCount = 1, highScores = (120, 120), ballIdCounter = 2, powerUpIdCounter = 1\<rparr>"

definition spawnState :: GameState where
  "spawnState =
     \<lparr>tiles = createInitialTiles,
      balls = [mkBall 0 Left 100 240 4 0 16, mkBall 1 Right 600 240 (- 4) 0 16],
      powerUps = [],
      frameCount = 299, highScores = (120, 120), ballIdCounter = 2, powerUpIdCounter = 0\<rparr>"

section \<open>Properties\<close>

subsection \<open>Boundary reflection\<close>

lemma reflectLeft_fields:
  "ball_x (reflectLeft b) = (if ball_x b - radius b < 0 then radius b else ball_x b)"
  "vx (reflectLeft b) = (if ball_x b - radius b < 0 then \<bar>vx b\<bar> else vx b)"
  "ball_y (reflectLeft b) = ball_y b" "vy (reflectLeft b) = vy b"
  "radius (reflectLeft b) = radius b"
  by (simp_all add: reflectLeft_def)

lemma reflectRight_fields:
  "ball_x (reflectRight inp b)
     = (if ball_x b + radius b > width inp then width inp - radius b else ball_x b)"
  "vx (reflectRight inp b) = (if ball_x b + radius b > width inp then - \<bar>vx b\<bar> else vx b)"
  "ball_y (reflectRight inp b) = ball_y b" "vy (reflectRight inp b) = vy b"
  "radius (reflectRight inp b) = radius b"
  by (simp_all add: reflectRight_def)

lemma reflectTop_fields:
  "ball_y (reflectTop b) = (if ball_y b - radius b < 0 then radius b else ball_y b)"
  "vy (reflectTop b) = (if ball_y b - radius b < 0 then \<bar>vy b\<bar> else vy b)"
  "ball_x (reflectTop b) = ball_x b" "vx (reflectTop b) = vx b"
  "radius (reflectTop b) = radius b"
  by (simp_all add: reflectTop_def)

lemma reflectBottom_fields:
  "ball_y (reflectBottom inp b)
     = (if ball_y b + radius b > height inp then height inp - radius b else ball_y b)"
  "vy (reflectBottom inp b) = (if ball_y b + radius b > height inp then - \<bar>vy b\<bar> else vy b)"
  "ball_x (reflectBottom inp b) = ball_x b" "vx (reflectBottom inp b) = vx b"
  "radius (reflectBottom inp b) = radius b"
  by (simp_all add: reflectBottom_def)

lemmas reflect_fields =
  reflectLeft_fields reflectRight_fields reflectTop_fields reflectBottom_fields

lemma boundary_x:
  assumes "2 * radius b \<le> width inp"
  shows "ball_x (boundary inp b) =
     (if ball_x b - radius b < 0 then radius b
      else if ball_x b + radius b > width inp then width inp - radius b else ball_x b)"
  using assms by (simp add: boundary_def reflect_fields)

lemma boundary_y:
  assumes "2 * radius b \<le> height inp"
  shows "ball_y (boundary inp b) =
     (if ball_y b - radius b < 0 then radius b
      else if ball_y b + radius b > height inp then height inp - radius b else ball_y b)"
  using assms by (simp add: boundary_def reflect_fields)

lemma boundary_vx:
  assumes "2 * radius b \<le> width inp"
  shows "vx (boundary inp b) =
     (if ball_x b - radius b < 0 then \<bar>vx b\<bar>
      else if ball_x b + radius b > width inp then - \<bar>vx b\<bar> else vx b)"
proof (cases "ball_x b - radius b < 0")
  case True
  then have "\<not> radius b + radius b > width inp" using assms by simp
  with True show ?thesis by (simp add: boundary_def reflect_fields)
next
  case False
  then show ?thesis by (simp add: boundary_def reflect_fields)
qed

lemma boundary_vy:
  assumes "2 * radius b \<le> height inp"
  shows "vy (boundary inp b) =
     (if ball_y b - radius b < 0 then \<bar>vy b\<bar>
      else if ball_y b + radius b > height inp then - \<bar>vy b\<bar> else vy b)"
proof (cases "ball_y b - radius b < 0")
  case True
  then have "\<not> radius b + radius b > height inp" using assms by simp
  with True show ?thesis by (simp add: boundary_def reflect_fields)
next
  case False
  then show ?thesis by (simp add: boundary_def reflect_fields)
qed

lemma boundary_radius: "radius (boundary inp b) = radius b"
  by (simp add: boundary_def reflect_fields)

text \<open>
  C5, as the specification states it, fails: in a world narrower than the ball's diameter
  the left test moves the ball to \<open>x = radius\<close>, the right test then moves it to
  \<open>x = width - radius\<close>, which is left of \<open>radius\<close>, and the velocity points outward again.
  A giant ball of radius 90 (base radius 36, as created in a world of 1920 by 1080) at
  \<open>x = 80\<close>, after the world was resized to a width of 150, ends at \<open>x = 60\<close>.
\<close>

theorem C5_boundary_counterexample:
  "\<not> (radius (boundary narrowWorld ((mkBall 0 Left 80 500 (- 4) 0 36)\<lparr>radius := 90, giant := 100\<rparr>))
        \<le> ball_x (boundary narrowWorld
                   ((mkBall 0 Left 80 500 (- 4) 0 36)\<lparr>radius := 90, giant := 100\<rparr>)))"
  by (simp add: boundary_def reflect_fields narrowWorld_def mkBall_def)

text \<open>
  C5, amended: when the world is at least as wide and as high as the ball's diameter, the
  position after the boundary step (which \<open>processBall\<close> applies to every ball that is not
  frozen) lies within \<open>[radius, width - radius] \<times> [radius, height - radius]\<close>; a reflection
  at a minimum edge leaves the velocity component non-negative, one at a maximum edge
  non-positive, no reflection leaves it unchanged; and each axis is computed from its own
  coordinate, velocity component and world extent only.
\<close>

theorem C5_boundary_within_world:
  assumes "2 * radius b \<le> width inp" and "2 * radius b \<le> height inp"
  shows "radius (boundary inp b) \<le> ball_x (boundary inp b) \<and>
         ball_x (boundary inp b) \<le> width inp - radius (boundary inp b) \<and>
         radius (boundary inp b) \<le> ball_y (boundary inp b) \<and>
         ball_y (boundary inp b) \<le> height inp - radius (boundary inp b) \<and>
         ball_x (boundary inp b) =
           (if ball_x b - radius b < 0 then radius b
            else if ball_x b + radius b > width inp then width inp - radius b else ball_x b) \<and>
         ball_y (boundary inp b) =
           (if ball_y b - radius b < 0 then radius b
            else if ball_y b + radius b > height inp then height inp - radius b else ball_y b) \<and>
         vx (boundary inp b) =
           (if ball_x b - radius b < 0 then \<bar>vx b\<bar>
            else if ball_x b + radius b > width inp then - \<bar>vx b\<bar> else vx b) \<and>
         vy (boundary inp b) =
           (if ball_y b - radius b < 0 then \<bar>vy b\<bar>
            else if ball_y b + radius b > height inp then - \<bar>vy b\<bar> else vy b)"
proof -
  note x = boundary_x [OF assms(1)] and y = boundary_y [OF assms(2)]
  have "radius b \<le> ball_x (boundary inp b)" unfolding x using assms(1) by simp
  moreover have "ball_x (boundary inp b) \<le> width inp - radius b"
    unfolding x using assms(1) by simp
  moreover have "radius b \<le> ball_y (boundary inp b)" unfolding y using assms(2) by simp
  moreover have "ball_y (boundary inp b) \<le> height inp - radius b"
    unfolding y using assms(2) by simp
  ultimately show ?thesis
    using x y boundary_vx [OF assms(1)] boundary_vy [OF assms(2)]
    by (simp only: boundary_radius simp_thms)
qed

theorem C5_boundary_within_world_witness:
  "2 * radius (mkBall 0 Left 5 470 (- 4) 3 16) \<le> width world \<and>
   2 * radius (mkBall 0 Left 5 470 (- 4) 3 16) \<le> height world \<and>
   ball_x (boundary world (mkBall 0 Left 5 470 (- 4) 3 16)) = 16 \<and>
   ball_y (boundary world (mkBall 0 Left 5 470 (- 4) 3 16)) = 464 \<and>
   vx (boundary world (mkBall 0 Left 5 470 (- 4) 3 16)) = 4 \<and>
   vy (boundary world (mkBall 0 Left 5 470 (- 4) 3 16)) = - 3"
proof -
  have h1: "2 * radius (mkBall 0 Left 5 470 (- 4) 3 16) \<le> width world"
    and h2: "2 * radius (mkBall 0 Left 5 470 (- 4) 3 16) \<le> height world"
    by (simp_all add: mkBall_def world_def)
  show ?thesis
    using h1 h2 C5_boundary_within_world [OF h1 h2]
    by (simp add: mkBall_def world_def)
qed

subsection \<open>The magnet effect\<close>

lemma sqrt_square_nonneg: "0 \<le> a \<Longrightarrow> sqrt (a * a) = a"
  by simp

text \<open>
  C1: the specification has the magnet aim at 75\% of the width for one team and at 25\%
  for the other. The code compares the team with the literal \<open>"white"\<close>, which no team
  is, so the target is 25\% of the width for both teams. A left-team ball at
  \<open>(500, 240)\<close> in a world of 800 by 480 is sent to \<open>x = 200\<close>, its own half, with velocity
  \<open>(-6, 0)\<close>.
\<close>

theorem C1_magnet_left_ball_aims_at_own_half:
  "team (mkBall 0 Left 500 240 4 0 16) = Left \<and>
   magnetTargetX world (mkBall 0 Left 500 240 4 0 16) = 200 \<and>
   magnetTargetX world (mkBall 1 Right 500 240 4 0 16) = 200 \<and>
   vx (pk_ball (applyEffect world Magnet
         \<lparr>pk_ball = mkBall 0 Left 500 240 4 0 16, pk_balls = [], pk_newBalls = [],
          pk_ballIdCounter = 2, pk_toRemove = []\<rparr>)) = - 6 \<and>
   vy (pk_ball (applyEffect world Magnet
         \<lparr>pk_ball = mkBall 0 Left 500 240 4 0 16, pk_balls = [], pk_newBalls = [],
          pk_ballIdCounter = 2, pk_toRemove = []\<rparr>)) = 0"
proof -
  have s: "sqrt ((- 300) * (- 300) + 0 * 0) = (300::real)"
    using sqrt_square_nonneg [of 300] by simp
  have t: "magnetTargetX world (mkBall 0 Left 500 240 4 0 16) = 200"
    by (simp add: magnetTargetX_def world_def mkBall_def)
  have t': "magnetTargetX world (mkBall 1 Right 500 240 4 0 16) = 200"
    by (simp add: magnetTargetX_def world_def mkBall_def)
  have v: "vx (magnetEffect world (mkBall 0 Left 500 240 4 0 16)) = - 6 \<and>
           vy (magnetEffect world (mkBall 0 Left 500 240 4 0 16)) = 0"
    unfolding magnetEffect_def Let_def t
    using s by (simp add: world_def mkBall_def BASE_SPEED_def)
  show ?thesis using t t' v by (simp add: mkBall_def)
qed

subsection \<open>The pickup loop\<close>

lemma touch_refl: "touch b b"
  by (simp add: touch_def)

lemma touch_trans: "touch a b \<Longrightarrow> touch b c \<Longrightarrow> touch a c"
  by (auto simp: touch_def)

lemma touch_fields:
  assumes "touch b b'"
  shows "ball_id b' = ball_id b" "team b' = team b" "isClone b' = isClone b"
    "cloneExpires b' = cloneExpires b" "ball_x b' = ball_x b" "ball_y b' = ball_y b"
    "giant b' = giant b" "speed b' = speed b" "radius b' = radius b" "baseRadius b' = baseRadius b"
    "vx b' = vx b" "vy b' = vy b"
  using assms by (auto simp: touch_def)

lemma touch_frozen: "touch b b' \<Longrightarrow> frozen b' = frozen b \<or> frozen b' = POWERUP_DURATION"
  by (auto simp: touch_def)

lemma touch_cloneExpiry: "touch b b' \<Longrightarrow> (cloneExpiry b' = None) = (cloneExpiry b = None)"
  by (auto simp: touch_def cloneExpiry_def Let_def)

text \<open>The effects and the identity of the ball that picks\<close>

lemma applyEffect_ball:
  "ball_id (pk_ball (applyEffect inp t pk)) = ball_id (pk_ball pk)"
  "team (pk_ball (applyEffect inp t pk)) = team (pk_ball pk)"
  "isClone (pk_ball (applyEffect inp t pk)) = isClone (pk_ball pk)"
  "cloneExpires (pk_ball (applyEffect inp t pk)) = cloneExpires (pk_ball pk)"
  "ball_x (pk_ball (applyEffect inp t pk)) = ball_x (pk_ball pk)"
  "ball_y (pk_ball (applyEffect inp t pk)) = ball_y (pk_ball pk)"
  "frozen (pk_ball (applyEffect inp t pk)) = frozen (pk_ball pk)"
  by (cases t; simp add: magnetEffect_def Let_def)+

lemma pickupLoop_ball:
  "ball_id (pk_ball (pickupLoop inp ps pk)) = ball_id (pk_ball pk) \<and>
   team (pk_ball (pickupLoop inp ps pk)) = team (pk_ball pk) \<and>
   isClone (pk_ball (pickupLoop inp ps pk)) = isClone (pk_ball pk) \<and>
   cloneExpires (pk_ball (pickupLoop inp ps pk)) = cloneExpires (pk_ball pk) \<and>
   ball_x (pk_ball (pickupLoop inp ps pk)) = ball_x (pk_ball pk) \<and>
   ball_y (pk_ball (pickupLoop inp ps pk)) = ball_y (pk_ball pk) \<and>
   frozen (pk_ball (pickupLoop inp ps pk)) = frozen (pk_ball pk)"
proof (induction ps arbitrary: pk)
  case Nil
  show ?case by simp
next
  case (Cons p ps)
  show ?case
  proof (cases "inRange (pk_ball pk) p")
    case True
    then show ?thesis
      using Cons.IH [of "applyEffect inp (pu_type p) (pk\<lparr>pk_toRemove := pk_toRemove pk @ [pu_id p]\<rparr>)"]
      by (simp add: applyEffect_ball)
  next
    case False
    then show ?thesis using Cons.IH [of pk] by simp
  qed
qed

text \<open>The effects on the objects of ballsRef.current\<close>

lemma applyEffect_balls_length:
  "length (pk_balls (applyEffect inp t pk)) = length (pk_balls pk)"
  by (cases t) simp_all

lemma applyEffect_balls_touch:
  "j < length (pk_balls pk) \<Longrightarrow> touch (pk_balls pk ! j) (pk_balls (applyEffect inp t pk) ! j)"
  by (cases t) (simp_all add: touch_def)

lemma applyEffect_freeze:
  "j < length (pk_balls pk) \<Longrightarrow> team (pk_balls pk ! j) \<noteq> team (pk_ball pk) \<Longrightarrow>
   frozen (pk_balls (applyEffect inp Freeze pk) ! j) = POWERUP_DURATION"
  by simp

lemma pickupLoop_balls_length:
  "length (pk_balls (pickupLoop inp ps pk)) = length (pk_balls pk)"
proof (induction ps arbitrary: pk)
  case Nil
  show ?case by simp
next
  case (Cons p ps)
  show ?case
    by (cases "inRange (pk_ball pk) p") (simp_all add: Cons.IH applyEffect_balls_length)
qed

lemma pickupLoop_balls_touch:
  "j < length (pk_balls pk) \<Longrightarrow> touch (pk_balls pk ! j) (pk_balls (pickupLoop inp ps pk) ! j)"
proof (induction ps arbitrary: pk)
  case Nil
  show ?case by (simp add: touch_refl)
next
  case (Cons p ps)
  show ?case
  proof (cases "inRange (pk_ball pk) p")
    case True
    let ?pk = "applyEffect inp (pu_type p) (pk\<lparr>pk_toRemove := pk_toRemove pk @ [pu_id p]\<rparr>)"
    have a: "touch (pk_balls pk ! j) (pk_balls ?pk ! j)"
      using applyEffect_balls_touch [of j "pk\<lparr>pk_toRemove := pk_toRemove pk @ [pu_id p]\<rparr>" inp "pu_type p"]
        Cons.prems by simp
    have "j < length (pk_balls ?pk)"
      using Cons.prems by (simp add: applyEffect_balls_length)
    then have "touch (pk_balls ?pk ! j) (pk_balls (pickupLoop inp ps ?pk) ! j)"
      by (rule Cons.IH)
    with a have "touch (pk_balls pk ! j) (pk_balls (pickupLoop inp ps ?pk) ! j)"
      by (rule touch_trans)
    with True show ?thesis by simp
  next
    case False
    then show ?thesis using Cons.IH [of pk] Cons.prems by simp
  qed
qed

text \<open>A freeze among the pickups leaves every ball of another team with the full timer\<close>

lemma pickupLoop_freeze:
  assumes "j < length (pk_balls pk)" "team (pk_balls pk ! j) \<noteq> team (pk_ball pk)"
    "\<exists>p \<in> set (picked inp ps pk). pu_type p = Freeze"
  shows "frozen (pk_balls (pickupLoop inp ps pk) ! j) = POWERUP_DURATION"
  using assms
proof (induction ps arbitrary: pk)
  case Nil
  then show ?case by simp
next
  case (Cons p ps)
  show ?case
  proof (cases "inRange (pk_ball pk) p")
    case False
    then show ?thesis using Cons.IH [of pk] Cons.prems by simp
  next
    case True
    let ?q = "pk\<lparr>pk_toRemove := pk_toRemove pk @ [pu_id p]\<rparr>"
    let ?pk = "applyEffect inp (pu_type p) ?q"
    have len: "j < length (pk_balls ?pk)"
      using Cons.prems(1) by (simp add: applyEffect_balls_length)
    have tm: "team (pk_balls ?pk ! j) \<noteq> team (pk_ball ?pk)"
      using applyEffect_balls_touch [of j ?q inp "pu_type p"] Cons.prems(1,2)
      by (simp add: applyEffect_ball touch_fields)
    show ?thesis
    proof (cases "\<exists>q \<in> set (picked inp ps ?pk). pu_type q = Freeze")
      case True
      from Cons.IH [OF len tm True] \<open>inRange (pk_ball pk) p\<close> show ?thesis by simp
    next
      case False
      with Cons.prems(3) \<open>inRange (pk_ball pk) p\<close> have fz: "pu_type p = Freeze" by auto
      have "frozen (pk_balls ?pk ! j) = POWERUP_DURATION"
        using Cons.prems(1,2) fz by simp
      moreover have "touch (pk_balls ?pk ! j) (pk_balls (pickupLoop inp ps ?pk) ! j)"
        using len by (rule pickupLoop_balls_touch)
      ultimately have "frozen (pk_balls (pickupLoop inp ps ?pk) ! j) = POWERUP_DURATION"
        using touch_frozen by fastforce
      with \<open>inRange (pk_ball pk) p\<close> show ?thesis by simp
    qed
  qed
qed

text \<open>Pickups and the list of removed ids\<close>

lemma pickupLoop_toRemove:
  "pk_toRemove (pickupLoop inp ps pk) = pk_toRemove pk @ map pu_id (picked inp ps pk)"
proof (induction ps arbitrary: pk)
  case Nil
  show ?case by simp
next
  case (Cons p ps)
  have tr: "\<And>t q. pk_toRemove (applyEffect inp t q) = pk_toRemove q"
    subgoal for t q by (cases t) simp_all
    done
  show ?case
    by (cases "inRange (pk_ball pk) p") (simp_all add: Cons.IH tr)
qed

lemma picked_subset: "set (picked inp ps pk) \<subseteq> set ps"
proof (induction ps arbitrary: pk)
  case Nil
  show ?case by simp
next
  case (Cons p ps)
  show ?case
    using Cons.IH [of pk]
      Cons.IH [of "applyEffect inp (pu_type p) (pk\<lparr>pk_toRemove := pk_toRemove pk @ [pu_id p]\<rparr>)"]
    by (cases "inRange (pk_ball pk) p") auto
qed

lemma picked_distinct:
  "distinct (map pu_id ps) \<Longrightarrow> distinct (map pu_id (picked inp ps pk))"
proof (induction ps arbitrary: pk)
  case Nil
  show ?case by simp
next
  case (Cons p ps)
  let ?pk = "applyEffect inp (pu_type p) (pk\<lparr>pk_toRemove := pk_toRemove pk @ [pu_id p]\<rparr>)"
  from Cons.prems have d: "distinct (map pu_id ps)" and n: "pu_id p \<notin> pu_id ` set ps"
    by simp_all
  have "pu_id p \<notin> pu_id ` set (picked inp ps ?pk)"
    using n picked_subset [of inp ps ?pk] by blast
  then show ?case
    using Cons.IH [OF d, of pk] Cons.IH [OF d, of ?pk]
    by (cases "inRange (pk_ball pk) p") simp_all
qed

lemma applyEffect_toRemove: "pk_toRemove (applyEffect inp t q) = pk_toRemove q"
  by (cases t) simp_all

lemma pickupLoop_newBalls:
  "\<exists>cs. pk_newBalls (pickupLoop inp ps pk) = pk_newBalls pk @ map New cs \<and>
        distinct (map ball_id cs) \<and>
        (\<forall>c \<in> set cs. pk_ballIdCounter pk \<le> ball_id c \<and>
                        ball_id c < pk_ballIdCounter pk + length cs) \<and>
        pk_ballIdCounter (pickupLoop inp ps pk) = pk_ballIdCounter pk + length cs \<and>
        length cs = length (filter (\<lambda>p. pu_type p = Split) (picked inp ps pk)) \<and>
        (\<forall>c \<in> set cs. isClone c \<and> cloneExpires c = 2 * POWERUP_DURATION \<and> frozen c = 0 \<and>
                        team c = team (pk_ball pk))"
proof (induction ps arbitrary: pk)
  case Nil
  show ?case by (rule exI [of _ "[]"]) simp
next
  case (Cons p ps)
  show ?case
  proof (cases "inRange (pk_ball pk) p")
    case False
    then show ?thesis using Cons.IH [of pk] by simp
  next
    case True
    let ?q = "pk\<lparr>pk_toRemove := pk_toRemove pk @ [pu_id p]\<rparr>"
    let ?pk' = "applyEffect inp (pu_type p) ?q"
    from Cons.IH [of ?pk'] obtain cs where
      nb: "pk_newBalls (pickupLoop inp ps ?pk') = pk_newBalls ?pk' @ map New cs" and
      dist: "distinct (map ball_id cs)" and
      ids: "\<forall>c \<in> set cs. pk_ballIdCounter ?pk' \<le> ball_id c \<and>
                        ball_id c < pk_ballIdCounter ?pk' + length cs" and
      ctr: "pk_ballIdCounter (pickupLoop inp ps ?pk') = pk_ballIdCounter ?pk' + length cs" and
      len: "length cs = length (filter (\<lambda>p. pu_type p = Split) (picked inp ps ?pk'))" and
      cl: "\<forall>c \<in> set cs. isClone c \<and> cloneExpires c = 2 * POWERUP_DURATION \<and> frozen c = 0 \<and>
                        team c = team (pk_ball ?pk')"
      by blast
    have tm: "team (pk_ball ?pk') = team (pk_ball pk)"
      by (simp add: applyEffect_ball)
    show ?thesis
    proof (cases "pu_type p = Split")
      case split: True
      let ?c = "makeClone (pk_ballIdCounter pk) (pk_ball pk)"
      have a: "pk_newBalls ?pk' = pk_newBalls pk @ [New ?c]"
        and b: "pk_ballIdCounter ?pk' = pk_ballIdCounter pk + 1"
        using split by simp_all
      have c: "ball_id ?c = pk_ballIdCounter pk" "isClone ?c"
        "cloneExpires ?c = 2 * POWERUP_DURATION" "frozen ?c = 0" "team ?c = team (pk_ball pk)"
        by (simp_all add: makeClone_def)
      have "pk_newBalls (pickupLoop inp (p # ps) pk) = pk_newBalls pk @ map New (?c # cs)"
        using True nb a by simp
      moreover have "distinct (map ball_id (?c # cs))"
        using dist ids b c(1) by fastforce
      moreover have "\<forall>c \<in> set (?c # cs). pk_ballIdCounter pk \<le> ball_id c \<and>
                        ball_id c < pk_ballIdCounter pk + length (?c # cs)"
        using ids b c(1) by fastforce
      moreover have "pk_ballIdCounter (pickupLoop inp (p # ps) pk)
          = pk_ballIdCounter pk + length (?c # cs)"
        using True ctr b by simp
      moreover have "length (?c # cs)
          = length (filter (\<lambda>p. pu_type p = Split) (picked inp (p # ps) pk))"
        using True len split by simp
      moreover have "\<forall>c \<in> set (?c # cs). isClone c \<and> cloneExpires c = 2 * POWERUP_DURATION \<and>
          frozen c = 0 \<and> team c = team (pk_ball pk)"
        using cl tm c by simp
      ultimately show ?thesis by blast
    next
      case other: False
      have a: "pk_newBalls ?pk' = pk_newBalls pk"
        and b: "pk_ballIdCounter ?pk' = pk_ballIdCounter pk"
        using other by (cases "pu_type p"; simp)+
      have "pk_newBalls (pickupLoop inp (p # ps) pk) = pk_newBalls pk @ map New cs"
        using True nb a by simp
      moreover have "distinct (map ball_id cs)"
        using dist by simp
      moreover have "\<forall>c \<in> set cs. pk_ballIdCounter pk \<le> ball_id c \<and>
                        ball_id c < pk_ballIdCounter pk + length cs"
        using ids b by simp
      moreover have "pk_ballIdCounter (pickupLoop inp (p # ps) pk) = pk_ballIdCounter pk + length cs"
        using True ctr b by simp
      moreover have "length cs = length (filter (\<lambda>p. pu_type p = Split) (picked inp (p # ps) pk))"
        using True len other by simp
      moreover have "\<forall>c \<in> set cs. isClone c \<and> cloneExpires c = 2 * POWERUP_DURATION \<and>
          frozen c = 0 \<and> team c = team (pk_ball pk)"
        using cl tm by simp
      ultimately show ?thesis by blast
    qed
  qed
qed

text \<open>The stages before the pickups keep the identity of the ball\<close>

lemma decTimers_fields:
  "ball_id (decTimers b) = ball_id b" "team (decTimers b) = team b"
  "isClone (decTimers b) = isClone b" "cloneExpires (decTimers b) = cloneExpires b"
  "ball_x (decTimers b) = ball_x b" "ball_y (decTimers b) = ball_y b"
  "frozen (decTimers b) = (if frozen b > 0 then frozen b - 1 else frozen b)"
  by (simp_all add: decTimers_def Let_def)

lemma updateTrail_fields:
  "ball_id (updateTrail b) = ball_id b" "team (updateTrail b) = team b"
  "isClone (updateTrail b) = isClone b" "cloneExpires (updateTrail b) = cloneExpires b"
  "ball_x (updateTrail b) = ball_x b" "ball_y (updateTrail b) = ball_y b"
  "frozen (updateTrail b) = frozen b"
  by (simp_all add: updateTrail_def Let_def)

lemma moveBall_fields:
  "ball_id (moveBall inp b) = ball_id b" "team (moveBall inp b) = team b"
  "isClone (moveBall inp b) = isClone b" "cloneExpires (moveBall inp b) = cloneExpires b"
  "frozen (moveBall inp b) = frozen b"
  by (simp_all add: moveBall_def Let_def)

lemma boundary_fields:
  "ball_id (boundary inp b) = ball_id b" "team (boundary inp b) = team b"
  "isClone (boundary inp b) = isClone b" "cloneExpires (boundary inp b) = cloneExpires b"
  "frozen (boundary inp b) = frozen b"
  by (simp_all add: boundary_def reflectLeft_def reflectRight_def reflectTop_def reflectBottom_def)

lemma redirect_fields:
  "ball_id (redirect inp tr i b) = ball_id b" "team (redirect inp tr i b) = team b"
  "isClone (redirect inp tr i b) = isClone b" "cloneExpires (redirect inp tr i b) = cloneExpires b"
  "frozen (redirect inp tr i b) = frozen b"
  "ball_x (redirect inp tr i b) = ball_x b" "ball_y (redirect inp tr i b) = ball_y b"
  by (simp_all add: redirect_def Let_def)

lemma cloneExpiry_Some:
  assumes "cloneExpiry b = Some b1"
  shows "ball_id b1 = ball_id b" "team b1 = team b" "isClone b1 = isClone b"
    "cloneExpires b1 = (if isClone b \<and> cloneExpires b > 0 then cloneExpires b - 1 else cloneExpires b)"
    "frozen b1 = frozen b" "ball_x b1 = ball_x b" "ball_y b1 = ball_y b"
  using assms by (auto simp: cloneExpiry_def Let_def split: if_splits)

lemma cloneExpiry_None:
  "cloneExpiry b = None \<longleftrightarrow> isClone b \<and> cloneExpires b = 1"
  by (auto simp: cloneExpiry_def Let_def)

subsection \<open>The turn of one ball\<close>

lemma startPick_None:
  "startPick inp i st = None \<longleftrightarrow>
     (cloneExpiry (l_balls st ! i) = None \<or>
      (\<exists>b1. cloneExpiry (l_balls st ! i) = Some b1 \<and> frozen (updateTrail (decTimers b1)) > 0))"
  by (auto simp: startPick_def Let_def split: option.splits)

lemma processBall_expired:
  assumes "cloneExpiry (l_balls st ! i) = None"
  shows "processBall inp tr i st =
     st\<lparr>l_balls := (l_balls st)[i := (l_balls st ! i)\<lparr>cloneExpires := cloneExpires (l_balls st ! i) - 1\<rparr>]\<rparr>"
  using assms by (simp add: processBall_def Let_def)

lemma processBall_frozen:
  assumes "cloneExpiry (l_balls st ! i) = Some b1" "frozen (updateTrail (decTimers b1)) > 0"
  shows "processBall inp tr i st =
     st\<lparr>l_balls := (l_balls st)[i := updateTrail (decTimers b1)],
        l_newBalls := l_newBalls st @ [Old i]\<rparr>"
  using assms by (simp add: processBall_def Let_def)

lemma processBall_active:
  assumes "startPick inp i st = Some pk0"
  shows "processBall inp tr i st =
     \<lparr>l_balls = (pk_balls (pickupLoop inp (l_powerUps st) pk0))
                   [i := redirect inp tr i (pk_ball (pickupLoop inp (l_powerUps st) pk0))],
      l_newBalls = pk_newBalls (pickupLoop inp (l_powerUps st) pk0) @ [Old i],
      l_powerUps = filter (\<lambda>p. pu_id p \<notin> set (pk_toRemove (pickupLoop inp (l_powerUps st) pk0)))
                     (l_powerUps st),
      l_newTiles = fst (convertTiles inp (pk_ball (pickupLoop inp (l_powerUps st) pk0))
                          (l_newTiles st, l_hasChanges st)),
      l_hasChanges = snd (convertTiles inp (pk_ball (pickupLoop inp (l_powerUps st) pk0))
                          (l_newTiles st, l_hasChanges st)),
      l_ballIdCounter = pk_ballIdCounter (pickupLoop inp (l_powerUps st) pk0)\<rparr>"
proof -
  from assms obtain b1 where
    c: "cloneExpiry (l_balls st ! i) = Some b1" and
    f: "\<not> frozen (updateTrail (decTimers b1)) > 0" and
    p: "pk0 = \<lparr>pk_ball = boundary inp (moveBall inp (updateTrail (decTimers b1))),
               pk_balls = l_balls st, pk_newBalls = l_newBalls st,
               pk_ballIdCounter = l_ballIdCounter st, pk_toRemove = []\<rparr>"
    by (auto simp: startPick_def Let_def split: option.splits if_splits)
  show ?thesis
    unfolding processBall_def Let_def c p using f by simp
qed

lemma startPick_Some:
  assumes "startPick inp i st = Some pk0"
  shows "pk_balls pk0 = l_balls st" "pk_newBalls pk0 = l_newBalls st"
    "pk_ballIdCounter pk0 = l_ballIdCounter st" "pk_toRemove pk0 = []"
    "ball_id (pk_ball pk0) = ball_id (l_balls st ! i)"
    "team (pk_ball pk0) = team (l_balls st ! i)"
    "isClone (pk_ball pk0) = isClone (l_balls st ! i)"
    "cloneExpires (pk_ball pk0) =
       (if isClone (l_balls st ! i) \<and> cloneExpires (l_balls st ! i) > 0
        then cloneExpires (l_balls st ! i) - 1 else cloneExpires (l_balls st ! i))"
    "cloneExpiry (l_balls st ! i) \<noteq> None"
    "frozen (l_balls st ! i) \<le> 1"
    "frozen (pk_ball pk0) \<le> 0"
proof -
  from assms obtain b1 where
    c: "cloneExpiry (l_balls st ! i) = Some b1" and
    f: "\<not> frozen (updateTrail (decTimers b1)) > 0" and
    p: "pk0 = \<lparr>pk_ball = boundary inp (moveBall inp (updateTrail (decTimers b1))),
               pk_balls = l_balls st, pk_newBalls = l_newBalls st,
               pk_ballIdCounter = l_ballIdCounter st, pk_toRemove = []\<rparr>"
    by (auto simp: startPick_def Let_def split: option.splits if_splits)
  note b1 = cloneExpiry_Some [OF c]
  show "pk_balls pk0 = l_balls st" "pk_newBalls pk0 = l_newBalls st"
    "pk_ballIdCounter pk0 = l_ballIdCounter st" "pk_toRemove pk0 = []"
    by (simp_all add: p)
  show "ball_id (pk_ball pk0) = ball_id (l_balls st ! i)"
    "team (pk_ball pk0) = team (l_balls st ! i)"
    "isClone (pk_ball pk0) = isClone (l_balls st ! i)"
    by (simp_all add: p boundary_fields moveBall_fields updateTrail_fields decTimers_fields b1)
  show "cloneExpires (pk_ball pk0) =
       (if isClone (l_balls st ! i) \<and> cloneExpires (l_balls st ! i) > 0
        then cloneExpires (l_balls st ! i) - 1 else cloneExpires (l_balls st ! i))"
    by (simp only: p Pick.simps boundary_fields moveBall_fields updateTrail_fields decTimers_fields b1)
  show "cloneExpiry (l_balls st ! i) \<noteq> None" using c by simp
  have fr: "frozen (updateTrail (decTimers b1)) = (if frozen b1 > 0 then frozen b1 - 1 else frozen b1)"
    by (simp only: updateTrail_fields decTimers_fields)
  show "frozen (l_balls st ! i) \<le> 1"
    using f fr b1(5) by (simp split: if_splits)
  show "frozen (pk_ball pk0) \<le> 0"
    using f by (simp add: p boundary_fields moveBall_fields)
qed


lemma processBall_cases:
  obtains (expired) "cloneExpiry (l_balls st ! i) = None"
      "processBall inp tr i st =
         st\<lparr>l_balls := (l_balls st)[i := (l_balls st ! i)\<lparr>cloneExpires := cloneExpires (l_balls st ! i) - 1\<rparr>]\<rparr>"
      "startPick inp i st = None"
  | (frozen) b1 where "cloneExpiry (l_balls st ! i) = Some b1"
      "frozen (updateTrail (decTimers b1)) > 0"
      "processBall inp tr i st =
         st\<lparr>l_balls := (l_balls st)[i := updateTrail (decTimers b1)],
            l_newBalls := l_newBalls st @ [Old i]\<rparr>"
      "startPick inp i st = None"
  | (active) pk0 where "startPick inp i st = Some pk0"
proof (cases "startPick inp i st")
  case (Some pk0)
  then show ?thesis by (rule active)
next
  case None
  show ?thesis
  proof (cases "cloneExpiry (l_balls st ! i)")
    case n: None
    show ?thesis using n processBall_expired [OF n] None by (rule expired)
  next
    case (Some b1)
    with None have f: "frozen (updateTrail (decTimers b1)) > 0"
      by (auto simp: startPick_None)
    show ?thesis using Some f processBall_frozen [OF Some f] None by (rule frozen)
  qed
qed

lemma processBall_balls_length:
  "length (l_balls (processBall inp tr i st)) = length (l_balls st)"
proof (cases rule: processBall_cases [of st i inp tr])
  case expired
  then show ?thesis by simp
next
  case (frozen b1)
  then show ?thesis by simp
next
  case (active pk0)
  show ?thesis
    by (simp add: processBall_active [OF active] pickupLoop_balls_length startPick_Some [OF active])
qed

lemma processBall_touch:
  assumes "j < length (l_balls st)" "j \<noteq> i"
  shows "touch (l_balls st ! j) (l_balls (processBall inp tr i st) ! j)"
proof (cases rule: processBall_cases [of st i inp tr])
  case expired
  then show ?thesis using assms by (simp add: touch_refl)
next
  case (frozen b1)
  then show ?thesis using assms by (simp add: touch_refl)
next
  case (active pk0)
  have "touch (pk_balls pk0 ! j) (pk_balls (pickupLoop inp (l_powerUps st) pk0) ! j)"
    using assms(1) by (intro pickupLoop_balls_touch) (simp add: startPick_Some [OF active])
  then show ?thesis
    using assms by (simp add: processBall_active [OF active] startPick_Some [OF active])
qed

lemma processBall_own:
  assumes "i < length (l_balls st)"
  shows "ball_id (l_balls (processBall inp tr i st) ! i) = ball_id (l_balls st ! i)"
    "team (l_balls (processBall inp tr i st) ! i) = team (l_balls st ! i)"
    "isClone (l_balls (processBall inp tr i st) ! i) = isClone (l_balls st ! i)"
    "cloneExpires (l_balls (processBall inp tr i st) ! i) =
       (if isClone (l_balls st ! i) \<and> cloneExpires (l_balls st ! i) > 0
        then cloneExpires (l_balls st ! i) - 1 else cloneExpires (l_balls st ! i))"
proof -
  let ?b = "l_balls st ! i" and ?b' = "l_balls (processBall inp tr i st) ! i"
  have "ball_id ?b' = ball_id ?b \<and> team ?b' = team ?b \<and> isClone ?b' = isClone ?b \<and>
    cloneExpires ?b' =
       (if isClone ?b \<and> cloneExpires ?b > 0 then cloneExpires ?b - 1 else cloneExpires ?b)"
  proof (cases rule: processBall_cases [of st i inp tr])
    case expired
    then show ?thesis using assms by (simp add: cloneExpiry_None)
  next
    case (frozen b1)
    note b1 = cloneExpiry_Some [OF frozen(1)]
    have "?b' = updateTrail (decTimers b1)" using frozen(3) assms by simp
    then show ?thesis
      by (simp only: updateTrail_fields decTimers_fields b1 simp_thms)
  next
    case (active pk0)
    let ?pk = "pickupLoop inp (l_powerUps st) pk0"
    have len: "i < length (pk_balls ?pk)"
      using assms by (simp add: pickupLoop_balls_length startPick_Some [OF active])
    have "?b' = redirect inp tr i (pk_ball ?pk)"
      using len by (simp add: processBall_active [OF active])
    then show ?thesis
      using pickupLoop_ball [of inp "l_powerUps st" pk0]
      by (simp only: redirect_fields startPick_Some [OF active] simp_thms)
  qed
  then show "ball_id ?b' = ball_id ?b" "team ?b' = team ?b" "isClone ?b' = isClone ?b"
    "cloneExpires ?b' =
       (if isClone ?b \<and> cloneExpires ?b > 0 then cloneExpires ?b - 1 else cloneExpires ?b)"
    by blast+
qed

lemma processBall_own_frozen:
  assumes "i < length (l_balls st)" "frozen (l_balls st ! i) \<ge> 2"
  shows "ball_x (l_balls (processBall inp tr i st) ! i) = ball_x (l_balls st ! i)"
    "ball_y (l_balls (processBall inp tr i st) ! i) = ball_y (l_balls st ! i)"
    "frozen (l_balls (processBall inp tr i st) ! i) = frozen (l_balls st ! i) - 1 \<or>
     frozen (l_balls (processBall inp tr i st) ! i) = frozen (l_balls st ! i)"
    "cloneExpiry (l_balls st ! i) \<noteq> None \<Longrightarrow>
       frozen (l_balls (processBall inp tr i st) ! i) = frozen (l_balls st ! i) - 1"
proof -
  let ?b = "l_balls st ! i" and ?b' = "l_balls (processBall inp tr i st) ! i"
  have "ball_x ?b' = ball_x ?b \<and> ball_y ?b' = ball_y ?b \<and>
     (frozen ?b' = frozen ?b - 1 \<or> frozen ?b' = frozen ?b) \<and>
     (cloneExpiry ?b \<noteq> None \<longrightarrow> frozen ?b' = frozen ?b - 1)"
  proof (cases rule: processBall_cases [of st i inp tr])
    case expired
    then show ?thesis using assms by simp
  next
    case (frozen b1)
    note b1 = cloneExpiry_Some [OF frozen(1)]
    have "?b' = updateTrail (decTimers b1)" using frozen(3) assms by simp
    then show ?thesis
      using assms(2) by (simp add: updateTrail_fields decTimers_fields b1)
  next
    case (active pk0)
    from startPick_Some(10) [OF active] assms(2) show ?thesis by simp
  qed
  then show "ball_x ?b' = ball_x ?b" "ball_y ?b' = ball_y ?b"
    "frozen ?b' = frozen ?b - 1 \<or> frozen ?b' = frozen ?b"
    "cloneExpiry ?b \<noteq> None \<Longrightarrow> frozen ?b' = frozen ?b - 1"
    by blast+
qed

lemma processBall_powerUps:
  "l_powerUps (processBall inp tr i st)
     = filter (\<lambda>p. pu_id p \<notin> pu_id ` set (pickedBy inp i st)) (l_powerUps st)"
proof (cases rule: processBall_cases [of st i inp tr])
  case expired
  then show ?thesis by (simp add: pickedBy_def)
next
  case (frozen b1)
  then show ?thesis by (simp add: pickedBy_def)
next
  case (active pk0)
  show ?thesis
    by (simp add: processBall_active [OF active] pickedBy_def active pickupLoop_toRemove
        startPick_Some [OF active])
qed

lemma processBall_freeze:
  assumes "j < length (l_balls st)" "team (l_balls st ! j) \<noteq> team (l_balls st ! i)"
    "\<exists>p \<in> set (pickedBy inp i st). pu_type p = Freeze"
  shows "frozen (l_balls (processBall inp tr i st) ! j) = POWERUP_DURATION"
proof (cases "startPick inp i st")
  case None
  with assms(3) show ?thesis by (simp add: pickedBy_def)
next
  case (Some pk0)
  note sp = startPick_Some [OF Some]
  from assms(2) have ne: "j \<noteq> i" by auto
  have "frozen (pk_balls (pickupLoop inp (l_powerUps st) pk0) ! j) = POWERUP_DURATION"
  proof (rule pickupLoop_freeze)
    show "j < length (pk_balls pk0)" using assms(1) by (simp add: sp)
    show "team (pk_balls pk0 ! j) \<noteq> team (pk_ball pk0)" using assms(2) by (simp add: sp)
    show "\<exists>p \<in> set (picked inp (l_powerUps st) pk0). pu_type p = Freeze"
      using assms(3) by (simp add: pickedBy_def Some)
  qed
  then show ?thesis using ne by (simp add: processBall_active [OF Some])
qed

lemma processBall_newBalls:
  "\<exists>cs. l_newBalls (processBall inp tr i st)
           = l_newBalls st @ map New cs @
               (if cloneExpiry (l_balls st ! i) = None then [] else [Old i]) \<and>
        distinct (map ball_id cs) \<and>
        (\<forall>c \<in> set cs. l_ballIdCounter st \<le> ball_id c \<and>
                        ball_id c < l_ballIdCounter st + length cs) \<and>
        l_ballIdCounter (processBall inp tr i st) = l_ballIdCounter st + length cs \<and>
        length cs = length (filter (\<lambda>p. pu_type p = Split) (pickedBy inp i st)) \<and>
        (\<forall>c \<in> set cs. isClone c \<and> cloneExpires c = 2 * POWERUP_DURATION \<and> frozen c = 0 \<and>
                        team c = team (l_balls st ! i))"
proof (cases rule: processBall_cases [of st i inp tr])
  case expired
  show ?thesis
    by (rule exI [of _ "[]"]) (simp add: expired pickedBy_def)
next
  case (frozen b1)
  show ?thesis
    by (rule exI [of _ "[]"]) (simp add: frozen pickedBy_def)
next
  case (active pk0)
  note sp = startPick_Some [OF active]
  from pickupLoop_newBalls [of inp "l_powerUps st" pk0] obtain cs where
    "pk_newBalls (pickupLoop inp (l_powerUps st) pk0) = pk_newBalls pk0 @ map New cs"
    "distinct (map ball_id cs)"
    "\<forall>c \<in> set cs. pk_ballIdCounter pk0 \<le> ball_id c \<and> ball_id c < pk_ballIdCounter pk0 + length cs"
    "pk_ballIdCounter (pickupLoop inp (l_powerUps st) pk0) = pk_ballIdCounter pk0 + length cs"
    "length cs = length (filter (\<lambda>p. pu_type p = Split) (picked inp (l_powerUps st) pk0))"
    "\<forall>c \<in> set cs. isClone c \<and> cloneExpires c = 2 * POWERUP_DURATION \<and> frozen c = 0 \<and>
                        team c = team (pk_ball pk0)"
    by blast
  then show ?thesis
    by (intro exI [of _ cs])
       (simp add: processBall_active [OF active] sp pickedBy_def active)
qed

subsection \<open>The ball loop, turn after turn\<close>

lemma ballLoopUpto_0: "ballLoopUpto inp tr st 0 = st"
  by (simp add: ballLoopUpto_def)

lemma ballLoopUpto_Suc:
  "ballLoopUpto inp tr st (Suc k) = processBall inp tr k (ballLoopUpto inp tr st k)"
  by (simp add: ballLoopUpto_def)

lemma ballLoopUpto_length:
  "length (l_balls (ballLoopUpto inp tr st k)) = length (l_balls st)"
  by (induction k) (simp_all add: ballLoopUpto_0 ballLoopUpto_Suc processBall_balls_length)

text \<open>Between the turns m and k, the objects whose own turn is not among them are only touched\<close>

lemma ballLoopUpto_touch:
  assumes "m \<le> k" "j < m \<or> k \<le> j" "j < length (l_balls st)"
  shows "touch (l_balls (ballLoopUpto inp tr st m) ! j) (l_balls (ballLoopUpto inp tr st k) ! j)"
  using assms(1,2)
proof (induction k)
  case 0
  then show ?case by (simp add: touch_refl)
next
  case (Suc k)
  show ?case
  proof (cases "m = Suc k")
    case True
    then show ?thesis by (simp add: touch_refl)
  next
    case False
    with Suc.prems have mk: "m \<le> k" and jk: "j < m \<or> k \<le> j" and ne: "j \<noteq> k"
      by auto
    have a: "touch (l_balls (ballLoopUpto inp tr st m) ! j) (l_balls (ballLoopUpto inp tr st k) ! j)"
      using mk jk by (rule Suc.IH)
    have "touch (l_balls (ballLoopUpto inp tr st k) ! j)
            (l_balls (processBall inp tr k (ballLoopUpto inp tr st k)) ! j)"
      using assms(3) ne by (intro processBall_touch) (simp_all add: ballLoopUpto_length)
    with a show ?thesis
      unfolding ballLoopUpto_Suc by (rule touch_trans)
  qed
qed

lemma ballLoopUpto_ident:
  assumes "j < length (l_balls st)"
  shows "ball_id (l_balls (ballLoopUpto inp tr st k) ! j) = ball_id (l_balls st ! j) \<and>
         team (l_balls (ballLoopUpto inp tr st k) ! j) = team (l_balls st ! j) \<and>
         isClone (l_balls (ballLoopUpto inp tr st k) ! j) = isClone (l_balls st ! j)"
proof (induction k)
  case 0
  show ?case by (simp add: ballLoopUpto_0)
next
  case (Suc k)
  let ?st = "ballLoopUpto inp tr st k"
  have len: "j < length (l_balls ?st)" using assms by (simp add: ballLoopUpto_length)
  show ?case
  proof (cases "j = k")
    case True
    then show ?thesis
      using Suc.IH processBall_own(1,2,3) [OF len, of inp tr]
      by (simp add: ballLoopUpto_Suc)
  next
    case False
    then have "touch (l_balls ?st ! j) (l_balls (processBall inp tr k ?st) ! j)"
      using len by (intro processBall_touch)
    then show ?thesis
      using Suc.IH by (simp add: ballLoopUpto_Suc touch_fields)
  qed
qed

text \<open>What a whole loop does to the object at position j\<close>

lemma ballLoop_slot:
  assumes "j < length (l_balls st)"
  shows "touch (l_balls st ! j) (l_balls (ballLoopUpto inp tr st j) ! j)"
    "touch (l_balls (processBall inp tr j (ballLoopUpto inp tr st j)) ! j)
           (l_balls (ballLoop inp tr st) ! j)"
proof -
  show "touch (l_balls st ! j) (l_balls (ballLoopUpto inp tr st j) ! j)"
    using ballLoopUpto_touch [of 0 j j st inp tr] assms by (simp add: ballLoopUpto_0)
  show "touch (l_balls (processBall inp tr j (ballLoopUpto inp tr st j)) ! j)
           (l_balls (ballLoop inp tr st) ! j)"
    using ballLoopUpto_touch [of "Suc j" "length (l_balls st)" j st inp tr] assms
    by (simp add: ballLoopUpto_Suc ballLoop_def)
qed

lemma ballLoop_cloneExpires:
  assumes "j < length (l_balls st)"
  shows "cloneExpires (l_balls (ballLoop inp tr st) ! j) =
       (if isClone (l_balls st ! j) \<and> cloneExpires (l_balls st ! j) > 0
        then cloneExpires (l_balls st ! j) - 1 else cloneExpires (l_balls st ! j))"
proof -
  let ?sj = "ballLoopUpto inp tr st j"
  have len: "j < length (l_balls ?sj)" using assms by (simp add: ballLoopUpto_length)
  note t1 = touch_fields [OF ballLoop_slot(1) [OF assms, of inp tr]]
  note t2 = touch_fields [OF ballLoop_slot(2) [OF assms, of inp tr]]
  show ?thesis
    by (simp only: t2 processBall_own(4) [OF len] t1)
qed

lemma ballLoop_frozen_slot:
  assumes "j < length (l_balls st)" "2 \<le> frozen (l_balls st ! j)"
    "frozen (l_balls st ! j) \<le> POWERUP_DURATION"
  shows "ball_x (l_balls (ballLoop inp tr st) ! j) = ball_x (l_balls st ! j)"
    "ball_y (l_balls (ballLoop inp tr st) ! j) = ball_y (l_balls st ! j)"
    "frozen (l_balls st ! j) - 1 \<le> frozen (l_balls (ballLoop inp tr st) ! j)"
    "frozen (l_balls (ballLoop inp tr st) ! j) \<le> POWERUP_DURATION"
proof -
  let ?sj = "ballLoopUpto inp tr st j"
  let ?b0 = "l_balls st ! j" and ?b1 = "l_balls ?sj ! j"
  let ?b2 = "l_balls (processBall inp tr j ?sj) ! j" and ?b3 = "l_balls (ballLoop inp tr st) ! j"
  have len: "j < length (l_balls ?sj)" using assms by (simp add: ballLoopUpto_length)
  note s1 = ballLoop_slot(1) [OF assms(1), of inp tr]
  note s2 = ballLoop_slot(2) [OF assms(1), of inp tr]
  have f1: "frozen ?b1 = frozen ?b0 \<or> frozen ?b1 = POWERUP_DURATION"
    using s1 by (rule touch_frozen)
  then have g1: "2 \<le> frozen ?b1" "frozen ?b0 \<le> frozen ?b1" "frozen ?b1 \<le> POWERUP_DURATION"
    using assms(2,3) by (auto simp: POWERUP_DURATION_def)
  note o = processBall_own_frozen [OF len g1(1), of inp tr]
  have g2: "frozen ?b0 - 1 \<le> frozen ?b2" "frozen ?b2 \<le> POWERUP_DURATION"
    using o(3) g1 by auto
  have f3: "frozen ?b3 = frozen ?b2 \<or> frozen ?b3 = POWERUP_DURATION"
    using s2 by (rule touch_frozen)
  show "ball_x ?b3 = ball_x ?b0" "ball_y ?b3 = ball_y ?b0"
    by (simp_all only: touch_fields [OF s2] o touch_fields [OF s1])
  show "frozen ?b0 - 1 \<le> frozen ?b3" "frozen ?b3 \<le> POWERUP_DURATION"
    using f3 g2 assms(3) by auto
qed

text \<open>A freeze pickup in the turn of the ball at position i\<close>

lemma ballLoop_freeze:
  assumes "i < length (l_balls st)" "j < length (l_balls st)"
    "team (l_balls st ! j) \<noteq> team (l_balls st ! i)"
    "\<exists>p \<in> set (pickedBy inp i (ballLoopUpto inp tr st i)). pu_type p = Freeze"
  shows "j < i \<Longrightarrow> frozen (l_balls (ballLoop inp tr st) ! j) = POWERUP_DURATION"
    "i < j \<Longrightarrow> cloneExpiry (l_balls st ! j) \<noteq> None \<Longrightarrow>
       frozen (l_balls (ballLoop inp tr st) ! j) = POWERUP_DURATION - 1 \<or>
       frozen (l_balls (ballLoop inp tr st) ! j) = POWERUP_DURATION"
proof -
  let ?n = "length (l_balls st)"
  let ?si = "ballLoopUpto inp tr st i"
  have leni: "j < length (l_balls ?si)" using assms(2) by (simp add: ballLoopUpto_length)
  have tm: "team (l_balls ?si ! j) \<noteq> team (l_balls ?si ! i)"
    using assms(3) ballLoopUpto_ident [OF assms(1), of inp tr i]
      ballLoopUpto_ident [OF assms(2), of inp tr i] by simp
  have fz: "frozen (l_balls (ballLoopUpto inp tr st (Suc i)) ! j) = POWERUP_DURATION"
    unfolding ballLoopUpto_Suc using leni tm assms(4) by (rule processBall_freeze)
  {
    assume "j < i"
    then have "touch (l_balls (ballLoopUpto inp tr st (Suc i)) ! j) (l_balls (ballLoopUpto inp tr st ?n) ! j)"
      using assms(1,2) by (intro ballLoopUpto_touch) simp_all
    from touch_frozen [OF this] fz
    show "frozen (l_balls (ballLoop inp tr st) ! j) = POWERUP_DURATION"
      by (auto simp: ballLoop_def)
  }
  {
    assume ij: "i < j" and alive: "cloneExpiry (l_balls st ! j) \<noteq> None"
    let ?sj = "ballLoopUpto inp tr st j"
    have lenj: "j < length (l_balls ?sj)" using assms(2) by (simp add: ballLoopUpto_length)
    have "touch (l_balls (ballLoopUpto inp tr st (Suc i)) ! j) (l_balls ?sj ! j)"
      using ij assms(2) by (intro ballLoopUpto_touch) simp_all
    from touch_frozen [OF this] fz have fj: "frozen (l_balls ?sj ! j) = POWERUP_DURATION"
      by auto
    have al: "cloneExpiry (l_balls ?sj ! j) \<noteq> None"
      using alive touch_cloneExpiry [OF ballLoop_slot(1) [OF assms(2), of inp tr]] by simp
    have "2 \<le> frozen (l_balls ?sj ! j)" using fj by (simp add: POWERUP_DURATION_def)
    from processBall_own_frozen(4) [OF lenj this al, of inp tr] fj
    have "frozen (l_balls (processBall inp tr j ?sj) ! j) = POWERUP_DURATION - 1" by simp
    with touch_frozen [OF ballLoop_slot(2) [OF assms(2), of inp tr]]
    show "frozen (l_balls (ballLoop inp tr st) ! j) = POWERUP_DURATION - 1 \<or>
       frozen (l_balls (ballLoop inp tr st) ! j) = POWERUP_DURATION"
      by auto
  }
qed

subsection \<open>The shape of newBalls\<close>

lemma distinct_map_append3:
  assumes "distinct (map f xs)" "distinct (map f ys)" "distinct (map f zs)"
    "\<forall>x \<in> set xs. \<forall>y \<in> set ys. f x \<noteq> f y"
    "\<forall>x \<in> set xs. \<forall>z \<in> set zs. f x \<noteq> f z"
    "\<forall>y \<in> set ys. \<forall>z \<in> set zs. f y \<noteq> f z"
  shows "distinct (map f (xs @ ys @ zs))"
  using assms by (simp add: distinct_map) (auto simp: inj_on_def)

lemma refsOk_step:
  assumes ok: "refsOk bs ctr0 ctr k refs"
    and bs: "distinct (map ball_id bs)" "\<forall>b \<in> set bs. ball_id b < ctr0" "k < length bs"
    and ctr: "ctr0 \<le> ctr"
    and cs: "distinct (map ball_id cs)" "\<forall>c \<in> set cs. ctr \<le> ball_id c \<and> ball_id c < ctr + length cs"
  shows "refsOk bs ctr0 (ctr + length cs) (Suc k)
           (refs @ map New cs @ (if cloneExpiry (bs ! k) = None then [] else [Old k]))"
proof -
  let ?f = "\<lambda>r. ball_id (deref bs r)"
  let ?tail = "if cloneExpiry (bs ! k) = None then [] else [Old k]"
  from ok have d: "distinct (map ?f refs)"
    and r: "\<And>r. r \<in> set refs \<Longrightarrow>
        (case r of Old j \<Rightarrow> j < k \<and> cloneExpiry (bs ! j) \<noteq> None
                 | New c \<Rightarrow> ctr0 \<le> ball_id c \<and> ball_id c < ctr)"
    and e: "\<And>j. j < k \<Longrightarrow> cloneExpiry (bs ! j) \<noteq> None \<Longrightarrow> Old j \<in> set refs"
    by (auto simp: refsOk_def)
  have idk: "ball_id (bs ! k) < ctr0" using bs(2,3) by simp
  have old_id: "\<And>j. j < k \<Longrightarrow> ball_id (bs ! j) \<noteq> ball_id (bs ! k)"
  proof -
    fix j assume "j < k"
    then show "ball_id (bs ! j) \<noteq> ball_id (bs ! k)"
      using bs(1,3) nth_eq_iff_index_eq [of "map ball_id bs" j k] by simp
  qed
  have refs_lt: "\<And>r. r \<in> set refs \<Longrightarrow> ?f r < ctr \<and> ?f r \<noteq> ball_id (bs ! k)"
  proof -
    fix r assume m: "r \<in> set refs"
    show "?f r < ctr \<and> ?f r \<noteq> ball_id (bs ! k)"
    proof (cases r)
      case (Old j)
      with r [OF m] have jk: "j < k" by simp
      then have "j < length bs" using bs(3) by simp
      then have "ball_id (bs ! j) < ctr0" using bs(2) by simp
      with old_id [OF jk] ctr Old show ?thesis by simp
    next
      case (New c)
      with r [OF m] idk show ?thesis by simp
    qed
  qed
  have d1: "distinct (map ?f (map New cs))"
    using cs(1) by (simp add: comp_def)
  have d2: "distinct (map ?f ?tail)" by simp
  have i1: "\<forall>x \<in> set refs. \<forall>y \<in> set (map New cs). ?f x \<noteq> ?f y"
  proof (intro ballI)
    fix x y assume x: "x \<in> set refs" and "y \<in> set (map New cs)"
    then obtain c where c: "c \<in> set cs" "y = New c" by auto
    from refs_lt [OF x] cs(2) c(1) have "?f x < ball_id c" by fastforce
    then show "?f x \<noteq> ?f y" using c(2) by simp
  qed
  have i2: "\<forall>x \<in> set refs. \<forall>z \<in> set ?tail. ?f x \<noteq> ?f z"
  proof (intro ballI)
    fix x z assume x: "x \<in> set refs" and "z \<in> set ?tail"
    then have "z = Old k" by (simp split: if_splits)
    with refs_lt [OF x] show "?f x \<noteq> ?f z" by simp
  qed
  have i3: "\<forall>y \<in> set (map New cs). \<forall>z \<in> set ?tail. ?f y \<noteq> ?f z"
  proof (intro ballI)
    fix y z assume "y \<in> set (map New cs)" and "z \<in> set ?tail"
    then obtain c where c: "c \<in> set cs" "y = New c" and z: "z = Old k"
      by (auto split: if_splits)
    from cs(2) c(1) idk ctr have "ball_id (bs ! k) < ball_id c" by fastforce
    then show "?f y \<noteq> ?f z" using c(2) z by simp
  qed
  have D: "distinct (map ?f (refs @ map New cs @ ?tail))"
    using d d1 d2 i1 i2 i3 by (rule distinct_map_append3)
  have R: "\<forall>r \<in> set (refs @ map New cs @ ?tail). case r of
           Old j \<Rightarrow> j < Suc k \<and> cloneExpiry (bs ! j) \<noteq> None
         | New c \<Rightarrow> ctr0 \<le> ball_id c \<and> ball_id c < ctr + length cs"
  proof
    fix r assume "r \<in> set (refs @ map New cs @ ?tail)"
    then consider "r \<in> set refs" | "r \<in> New ` set cs" | "r \<in> set ?tail" by auto
    then show "case r of Old j \<Rightarrow> j < Suc k \<and> cloneExpiry (bs ! j) \<noteq> None
         | New c \<Rightarrow> ctr0 \<le> ball_id c \<and> ball_id c < ctr + length cs"
    proof cases
      case 1
      from r [OF 1] show ?thesis by (cases r) auto
    next
      case 2
      then show ?thesis using cs(2) ctr by fastforce
    next
      case 3
      then show ?thesis by (auto split: if_splits)
    qed
  qed
  have E: "\<forall>j < Suc k. cloneExpiry (bs ! j) \<noteq> None \<longrightarrow>
      Old j \<in> set (refs @ map New cs @ ?tail)"
  proof (intro allI impI)
    fix j assume "j < Suc k" "cloneExpiry (bs ! j) \<noteq> None"
    then show "Old j \<in> set (refs @ map New cs @ ?tail)"
      using e [of j] by (cases "j = k") auto
  qed
  show ?thesis unfolding refsOk_def using D R E by blast
qed

lemma ballLoopUpto_refsOk:
  assumes "l_newBalls st = []" "distinct (map ball_id (l_balls st))"
    "\<forall>b \<in> set (l_balls st). ball_id b < l_ballIdCounter st" "k \<le> length (l_balls st)"
  shows "l_ballIdCounter st \<le> l_ballIdCounter (ballLoopUpto inp tr st k) \<and>
         refsOk (l_balls st) (l_ballIdCounter st) (l_ballIdCounter (ballLoopUpto inp tr st k)) k
           (l_newBalls (ballLoopUpto inp tr st k))"
  using assms(4)
proof (induction k)
  case 0
  show ?case by (simp add: ballLoopUpto_0 assms(1) refsOk_def)
next
  case (Suc k)
  let ?sk = "ballLoopUpto inp tr st k"
  from Suc have k: "k < length (l_balls st)"
    and le: "l_ballIdCounter st \<le> l_ballIdCounter ?sk"
    and ok: "refsOk (l_balls st) (l_ballIdCounter st) (l_ballIdCounter ?sk) k (l_newBalls ?sk)"
    by simp_all
  from processBall_newBalls [of inp tr k ?sk] obtain cs where
    nb: "l_newBalls (processBall inp tr k ?sk)
           = l_newBalls ?sk @ map New cs @ (if cloneExpiry (l_balls ?sk ! k) = None then [] else [Old k])"
    and cs: "distinct (map ball_id cs)"
      "\<forall>c \<in> set cs. l_ballIdCounter ?sk \<le> ball_id c \<and> ball_id c < l_ballIdCounter ?sk + length cs"
    and ctr: "l_ballIdCounter (processBall inp tr k ?sk) = l_ballIdCounter ?sk + length cs"
    by blast
  have ce: "(cloneExpiry (l_balls ?sk ! k) = None) = (cloneExpiry (l_balls st ! k) = None)"
    using ballLoop_slot(1) [OF k, of inp tr] by (rule touch_cloneExpiry)
  have "refsOk (l_balls st) (l_ballIdCounter st) (l_ballIdCounter ?sk + length cs) (Suc k)
          (l_newBalls ?sk @ map New cs @ (if cloneExpiry (l_balls st ! k) = None then [] else [Old k]))"
    using ok assms(2,3) k le cs by (rule refsOk_step)
  then show ?case
    using le by (simp add: ballLoopUpto_Suc nb ctr ce)
qed

subsection \<open>From one frame to the next\<close>

lemma initLoop_fields:
  "l_balls (initLoop inp s) = balls s" "l_newBalls (initLoop inp s) = []"
  "l_ballIdCounter (initLoop inp s) = ballIdCounter s"
  "l_newTiles (initLoop inp s) = tiles s" "l_hasChanges (initLoop inp s) = False"
  "l_powerUps (initLoop inp s)
     = fst (trySpawn inp (frameCount s + 1) (powerUps s) (powerUpIdCounter s))"
  by (simp_all add: initLoop_def)

lemma gameLoop_fields:
  "balls (gameLoop inp s)
     = map (deref (l_balls (ballLoop inp (tiles s) (initLoop inp s))))
         (l_newBalls (ballLoop inp (tiles s) (initLoop inp s)))"
  "ballIdCounter (gameLoop inp s) = l_ballIdCounter (ballLoop inp (tiles s) (initLoop inp s))"
  "powerUps (gameLoop inp s) = l_powerUps (ballLoop inp (tiles s) (initLoop inp s))"
  "frameCount (gameLoop inp s) = frameCount s + 1"
  "powerUpIdCounter (gameLoop inp s)
     = snd (trySpawn inp (frameCount s + 1) (powerUps s) (powerUpIdCounter s))"
  "tiles (gameLoop inp s)
     = (if l_hasChanges (ballLoop inp (tiles s) (initLoop inp s))
        then l_newTiles (ballLoop inp (tiles s) (initLoop inp s)) else tiles s)"
  "highScores (gameLoop inp s)
     = updateHighScores (frameCount s + 1) (countTiles (tiles (gameLoop inp s))) (highScores s)"
  by (simp_all add: gameLoop_def Let_def)

lemma frame_refsOk:
  assumes "idsOk s"
  shows "ballIdCounter s \<le> ballIdCounter (gameLoop inp s)"
    "refsOk (balls s) (ballIdCounter s) (ballIdCounter (gameLoop inp s)) (length (balls s))
       (l_newBalls (ballLoop inp (tiles s) (initLoop inp s)))"
proof -
  have "l_ballIdCounter (initLoop inp s)
          \<le> l_ballIdCounter (ballLoopUpto inp (tiles s) (initLoop inp s) (length (l_balls (initLoop inp s)))) \<and>
        refsOk (l_balls (initLoop inp s)) (l_ballIdCounter (initLoop inp s))
          (l_ballIdCounter (ballLoopUpto inp (tiles s) (initLoop inp s) (length (l_balls (initLoop inp s)))))
          (length (l_balls (initLoop inp s)))
          (l_newBalls (ballLoopUpto inp (tiles s) (initLoop inp s) (length (l_balls (initLoop inp s)))))"
    using assms by (intro ballLoopUpto_refsOk) (simp_all add: initLoop_fields idsOk_def)
  then show "ballIdCounter s \<le> ballIdCounter (gameLoop inp s)"
    "refsOk (balls s) (ballIdCounter s) (ballIdCounter (gameLoop inp s)) (length (balls s))
       (l_newBalls (ballLoop inp (tiles s) (initLoop inp s)))"
    by (simp_all add: gameLoop_fields ballLoop_def initLoop_fields)
qed

lemma frame_idents:
  assumes "j < length (balls s)"
  shows "ball_id (l_balls (ballLoop inp (tiles s) (initLoop inp s)) ! j) = ball_id (balls s ! j)"
    "team (l_balls (ballLoop inp (tiles s) (initLoop inp s)) ! j) = team (balls s ! j)"
    "isClone (l_balls (ballLoop inp (tiles s) (initLoop inp s)) ! j) = isClone (balls s ! j)"
  using ballLoopUpto_ident [of j "initLoop inp s" inp "tiles s" "length (balls s)"] assms
  by (simp_all add: ballLoop_def initLoop_fields)

text \<open>Every ball of the next frame is a surviving ball of this one, or a fresh clone\<close>

lemma frame_member:
  assumes "idsOk s" "b' \<in> set (balls (gameLoop inp s))"
  shows "(\<exists>j < length (balls s). cloneExpiry (balls s ! j) \<noteq> None \<and>
            b' = l_balls (ballLoop inp (tiles s) (initLoop inp s)) ! j \<and>
            ball_id b' = ball_id (balls s ! j)) \<or>
         (ballIdCounter s \<le> ball_id b' \<and> ball_id b' < ballIdCounter (gameLoop inp s) \<and>
          New b' \<in> set (l_newBalls (ballLoop inp (tiles s) (initLoop inp s))))"
proof -
  let ?L = "ballLoop inp (tiles s) (initLoop inp s)"
  from assms(2) obtain r where r: "r \<in> set (l_newBalls ?L)" and b': "b' = deref (l_balls ?L) r"
    by (auto simp: gameLoop_fields)
  from frame_refsOk(2) [OF assms(1), of inp] r have
    c: "case r of Old j \<Rightarrow> j < length (balls s) \<and> cloneExpiry (balls s ! j) \<noteq> None
               | New c \<Rightarrow> ballIdCounter s \<le> ball_id c \<and> ball_id c < ballIdCounter (gameLoop inp s)"
    by (simp add: refsOk_def)
  show ?thesis
  proof (cases r)
    case (Old j)
    with c b' frame_idents(1) [of j s inp] show ?thesis by auto
  next
    case (New c')
    with c b' r show ?thesis by auto
  qed
qed

lemma frame_survivor:
  assumes "idsOk s" "j < length (balls s)" "cloneExpiry (balls s ! j) \<noteq> None"
  shows "l_balls (ballLoop inp (tiles s) (initLoop inp s)) ! j \<in> set (balls (gameLoop inp s))"
proof -
  let ?L = "ballLoop inp (tiles s) (initLoop inp s)"
  from frame_refsOk(2) [OF assms(1), of inp] assms(2,3) have "Old j \<in> set (l_newBalls ?L)"
    by (simp add: refsOk_def)
  then have "deref (l_balls ?L) (Old j) \<in> deref (l_balls ?L) ` set (l_newBalls ?L)"
    by (rule imageI)
  then show ?thesis by (simp add: gameLoop_fields)
qed

lemma idsOk_nth_eq:
  assumes "idsOk s" "i < length (balls s)" "j < length (balls s)"
    "ball_id (balls s ! i) = ball_id (balls s ! j)"
  shows "i = j"
  using assms nth_eq_iff_index_eq [of "map ball_id (balls s)" i j]
  by (simp add: idsOk_def)

lemma frame_same_id:
  assumes "idsOk s" "j < length (balls s)" "b' \<in> set (balls (gameLoop inp s))"
    "ball_id b' = ball_id (balls s ! j)"
  shows "b' = l_balls (ballLoop inp (tiles s) (initLoop inp s)) ! j"
    "cloneExpiry (balls s ! j) \<noteq> None"
proof -
  have lt: "ball_id (balls s ! j) < ballIdCounter s"
    using assms(1,2) by (simp add: idsOk_def)
  have "\<exists>i < length (balls s). cloneExpiry (balls s ! i) \<noteq> None \<and>
            b' = l_balls (ballLoop inp (tiles s) (initLoop inp s)) ! i \<and>
            ball_id b' = ball_id (balls s ! i)"
  proof (rule disjE [OF frame_member [OF assms(1,3)]])
    assume "\<exists>j < length (balls s). cloneExpiry (balls s ! j) \<noteq> None \<and>
            b' = l_balls (ballLoop inp (tiles s) (initLoop inp s)) ! j \<and>
            ball_id b' = ball_id (balls s ! j)"
    then show ?thesis .
  next
    assume "ballIdCounter s \<le> ball_id b' \<and> ball_id b' < ballIdCounter (gameLoop inp s) \<and>
          New b' \<in> set (l_newBalls (ballLoop inp (tiles s) (initLoop inp s)))"
    with lt assms(4) have False by simp
    then show ?thesis ..
  qed
  then obtain i where
    i: "i < length (balls s)" "cloneExpiry (balls s ! i) \<noteq> None"
      "b' = l_balls (ballLoop inp (tiles s) (initLoop inp s)) ! i"
      "ball_id b' = ball_id (balls s ! i)"
    by blast
  have "ball_id (balls s ! i) = ball_id (balls s ! j)"
    using i(4) assms(4) by (rule trans [OF sym])
  then have "i = j" by (rule idsOk_nth_eq [OF assms(1) i(1) assms(2)])
  with i show "b' = l_balls (ballLoop inp (tiles s) (initLoop inp s)) ! j"
    "cloneExpiry (balls s ! j) \<noteq> None"
    by simp_all
qed

lemma gameLoop_idsOk:
  assumes "idsOk s"
  shows "idsOk (gameLoop inp s)"
proof -
  let ?L = "ballLoop inp (tiles s) (initLoop inp s)"
  note ok = frame_refsOk [OF assms, of inp]
  have eq: "\<And>r. r \<in> set (l_newBalls ?L) \<Longrightarrow>
      ball_id (deref (l_balls ?L) r) = ball_id (deref (balls s) r)"
  proof -
    fix r assume "r \<in> set (l_newBalls ?L)"
    with ok(2) have "case r of Old j \<Rightarrow> j < length (balls s) \<and> cloneExpiry (balls s ! j) \<noteq> None
               | New c \<Rightarrow> ballIdCounter s \<le> ball_id c \<and> ball_id c < ballIdCounter (gameLoop inp s)"
      by (simp add: refsOk_def)
    then show "ball_id (deref (l_balls ?L) r) = ball_id (deref (balls s) r)"
      using frame_idents(1) [of _ s inp] by (cases r) simp_all
  qed
  have "map ball_id (balls (gameLoop inp s)) = map (\<lambda>r. ball_id (deref (balls s) r)) (l_newBalls ?L)"
    using eq by (simp add: gameLoop_fields)
  moreover have "distinct (map (\<lambda>r. ball_id (deref (balls s) r)) (l_newBalls ?L))"
    using ok(2) by (simp add: refsOk_def)
  ultimately have d: "distinct (map ball_id (balls (gameLoop inp s)))" by simp
  have "\<forall>b' \<in> set (balls (gameLoop inp s)). ball_id b' < ballIdCounter (gameLoop inp s)"
  proof
    fix b' assume m: "b' \<in> set (balls (gameLoop inp s))"
    from frame_member [OF assms m] show "ball_id b' < ballIdCounter (gameLoop inp s)"
    proof
      assume "\<exists>j < length (balls s). cloneExpiry (balls s ! j) \<noteq> None \<and>
            b' = l_balls ?L ! j \<and> ball_id b' = ball_id (balls s ! j)"
      then obtain j where "j < length (balls s)" "ball_id b' = ball_id (balls s ! j)" by blast
      then have "ball_id b' < ballIdCounter s" using assms by (simp add: idsOk_def)
      with ok(1) show ?thesis by simp
    next
      assume "ballIdCounter s \<le> ball_id b' \<and> ball_id b' < ballIdCounter (gameLoop inp s) \<and>
          New b' \<in> set (l_newBalls ?L)"
      then show ?thesis by simp
    qed
  qed
  with d show ?thesis by (simp add: idsOk_def)
qed

lemma run_idsOk: "idsOk s \<Longrightarrow> idsOk (run inps s)"
  by (induction inps arbitrary: s) (simp_all add: gameLoop_idsOk)

lemma initialState_idsOk: "idsOk (initialState tw th r1 r2)"
  by (simp add: idsOk_def initialState_def createInitialBalls_def Let_def)

subsection \<open>Tracking one ball through frames\<close>

lemma idsOk_unique:
  assumes "idsOk s" "b \<in> set (balls s)" "b' \<in> set (balls s)" "ball_id b' = ball_id b"
  shows "b' = b"
proof -
  from assms(2,3) obtain i j where
    i: "i < length (balls s)" "b = balls s ! i" and j: "j < length (balls s)" "b' = balls s ! j"
    by (auto simp: in_set_conv_nth)
  have "ball_id (balls s ! j) = ball_id (balls s ! i)" using assms(4) i(2) j(2) by simp
  then have "j = i" by (rule idsOk_nth_eq [OF assms(1) j(1) i(1)])
  with i j show ?thesis by simp
qed

lemma frame_cloneExpires:
  assumes "j < length (balls s)"
  shows "cloneExpires (l_balls (ballLoop inp (tiles s) (initLoop inp s)) ! j) =
       (if isClone (balls s ! j) \<and> cloneExpires (balls s ! j) > 0
        then cloneExpires (balls s ! j) - 1 else cloneExpires (balls s ! j))"
  using ballLoop_cloneExpires [of j "initLoop inp s" inp "tiles s"] assms
  by (simp add: initLoop_fields)

lemma frame_clone_alive:
  assumes "idsOk s" "b \<in> set (balls s)" "isClone b" "cloneExpires b > 1"
  shows "\<exists>b' \<in> set (balls (gameLoop inp s)).
           ball_id b' = ball_id b \<and> isClone b' \<and> cloneExpires b' = cloneExpires b - 1"
proof -
  from assms(2) obtain j where j: "j < length (balls s)" "b = balls s ! j"
    by (auto simp: in_set_conv_nth)
  let ?b' = "l_balls (ballLoop inp (tiles s) (initLoop inp s)) ! j"
  have "cloneExpiry (balls s ! j) \<noteq> None"
    using assms(4) j(2) by (simp add: cloneExpiry_None)
  then have "?b' \<in> set (balls (gameLoop inp s))"
    by (rule frame_survivor [OF assms(1) j(1)])
  moreover have "ball_id ?b' = ball_id b" "isClone ?b'"
    using frame_idents [OF j(1), of inp] assms(3) j(2) by simp_all
  moreover have "cloneExpires ?b' = cloneExpires b - 1"
    using frame_cloneExpires [OF j(1), of inp] assms(3,4) j(2) by simp
  ultimately show ?thesis by blast
qed

lemma frame_clone_removed:
  assumes "idsOk s" "b \<in> set (balls s)" "isClone b" "cloneExpires b = 1"
  shows "\<forall>b' \<in> set (balls (gameLoop inp s)). ball_id b' \<noteq> ball_id b"
proof
  fix b' assume m: "b' \<in> set (balls (gameLoop inp s))"
  from assms(2) obtain j where j: "j < length (balls s)" "b = balls s ! j"
    by (auto simp: in_set_conv_nth)
  show "ball_id b' \<noteq> ball_id b"
  proof
    assume "ball_id b' = ball_id b"
    then have "ball_id b' = ball_id (balls s ! j)" using j(2) by simp
    from frame_same_id(2) [OF assms(1) j(1) m this] assms(3,4) j(2)
    show False by (simp add: cloneExpiry_None)
  qed
qed

lemma frame_absent:
  assumes "idsOk s" "d < ballIdCounter s" "\<forall>b \<in> set (balls s). ball_id b \<noteq> d"
  shows "\<forall>b' \<in> set (balls (gameLoop inp s)). ball_id b' \<noteq> d"
proof
  fix b' assume m: "b' \<in> set (balls (gameLoop inp s))"
  from frame_member [OF assms(1) m] show "ball_id b' \<noteq> d"
  proof
    assume "\<exists>j < length (balls s). cloneExpiry (balls s ! j) \<noteq> None \<and>
            b' = l_balls (ballLoop inp (tiles s) (initLoop inp s)) ! j \<and>
            ball_id b' = ball_id (balls s ! j)"
    then obtain j where "j < length (balls s)" "ball_id b' = ball_id (balls s ! j)" by blast
    with assms(3) show ?thesis by simp
  next
    assume "ballIdCounter s \<le> ball_id b' \<and> ball_id b' < ballIdCounter (gameLoop inp s) \<and>
          New b' \<in> set (l_newBalls (ballLoop inp (tiles s) (initLoop inp s)))"
    with assms(2) show ?thesis by simp
  qed
qed

lemma run_absent:
  assumes "idsOk s" "d < ballIdCounter s" "\<forall>b \<in> set (balls s). ball_id b \<noteq> d"
  shows "\<forall>b' \<in> set (balls (run inps s)). ball_id b' \<noteq> d"
  using assms
proof (induction inps arbitrary: s)
  case Nil
  then show ?case by simp
next
  case (Cons inp inps)
  have "idsOk (gameLoop inp s)" using Cons.prems(1) by (rule gameLoop_idsOk)
  moreover have "d < ballIdCounter (gameLoop inp s)"
    using frame_refsOk(1) [OF Cons.prems(1), of inp] Cons.prems(2) by simp
  moreover have "\<forall>b \<in> set (balls (gameLoop inp s)). ball_id b \<noteq> d"
    using Cons.prems by (rule frame_absent)
  ultimately show ?case using Cons.IH by simp
qed

text \<open>The lifetime of a clone\<close>

lemma clone_lifetime:
  assumes "idsOk s" "b \<in> set (balls s)" "isClone b" "cloneExpires b = int c" "0 < c"
  shows "(length inps < c \<longrightarrow>
            (\<exists>b' \<in> set (balls (run inps s)). ball_id b' = ball_id b \<and> isClone b' \<and>
               cloneExpires b' = int c - int (length inps))) \<and>
         (c \<le> length inps \<longrightarrow> (\<forall>b' \<in> set (balls (run inps s)). ball_id b' \<noteq> ball_id b))"
  using assms
proof (induction inps arbitrary: s b c)
  case Nil
  then show ?case by auto
next
  case (Cons inp inps)
  let ?s1 = "gameLoop inp s"
  have ok1: "idsOk ?s1" using Cons.prems(1) by (rule gameLoop_idsOk)
  show ?case
  proof (cases "c = 1")
    case True
    have "\<forall>b' \<in> set (balls ?s1). ball_id b' \<noteq> ball_id b"
      using Cons.prems(1,2,3) Cons.prems(4) True by (intro frame_clone_removed) simp_all
    moreover have "ball_id b < ballIdCounter ?s1"
      using frame_refsOk(1) [OF Cons.prems(1), of inp] Cons.prems(1,2) by (auto simp: idsOk_def)
    ultimately have "\<forall>b' \<in> set (balls (run inps ?s1)). ball_id b' \<noteq> ball_id b"
      using ok1 by (intro run_absent)
    with True show ?thesis by simp
  next
    case False
    with Cons.prems(5) obtain c' where c': "c = Suc c'" "0 < c'"
      by (cases c) auto
    have "cloneExpires b > 1" using Cons.prems(4) c' by simp
    from frame_clone_alive [OF Cons.prems(1,2,3) this, of inp] obtain b1 where
      b1: "b1 \<in> set (balls ?s1)" "ball_id b1 = ball_id b" "isClone b1"
        "cloneExpires b1 = cloneExpires b - 1"
      by blast
    have "cloneExpires b1 = int c'" using b1(4) Cons.prems(4) c'(1) by simp
    from Cons.IH [OF ok1 b1(1) b1(3) this c'(2)] show ?thesis
      by (simp add: b1(2) c'(1))
  qed
qed

text \<open>A frozen ball stays where it is\<close>

lemma frame_frozen:
  assumes "idsOk s" "b \<in> set (balls s)" "2 \<le> frozen b" "frozen b \<le> POWERUP_DURATION"
    "b' \<in> set (balls (gameLoop inp s))" "ball_id b' = ball_id b"
  shows "ball_x b' = ball_x b" "ball_y b' = ball_y b" "frozen b - 1 \<le> frozen b'"
    "frozen b' \<le> POWERUP_DURATION"
proof -
  from assms(2) obtain j where j: "j < length (balls s)" "b = balls s ! j"
    by (auto simp: in_set_conv_nth)
  have "ball_id b' = ball_id (balls s ! j)" using assms(6) j(2) by simp
  from frame_same_id(1) [OF assms(1) j(1) assms(5) this]
  have b': "b' = l_balls (ballLoop inp (tiles s) (initLoop inp s)) ! j" .
  have a: "j < length (l_balls (initLoop inp s))" "2 \<le> frozen (l_balls (initLoop inp s) ! j)"
    "frozen (l_balls (initLoop inp s) ! j) \<le> POWERUP_DURATION"
    using j assms(3,4) by (simp_all add: initLoop_fields)
  from ballLoop_frozen_slot [OF a, of inp "tiles s"]
  show "ball_x b' = ball_x b" "ball_y b' = ball_y b" "frozen b - 1 \<le> frozen b'"
    "frozen b' \<le> POWERUP_DURATION"
    by (simp_all add: b' j(2) initLoop_fields)
qed

lemma frozen_stays:
  assumes "idsOk s" "b \<in> set (balls s)" "frozen b \<le> POWERUP_DURATION"
    "int (length inps) < frozen b"
    "b' \<in> set (balls (run inps s))" "ball_id b' = ball_id b"
  shows "ball_x b' = ball_x b \<and> ball_y b' = ball_y b \<and>
         frozen b - int (length inps) \<le> frozen b' \<and> frozen b' \<le> POWERUP_DURATION"
  using assms
proof (induction inps arbitrary: s b)
  case Nil
  then have "b' = b" using idsOk_unique [of s b b'] by simp
  with Nil show ?case by simp
next
  case (Cons inp inps)
  let ?s1 = "gameLoop inp s"
  have ok1: "idsOk ?s1" using Cons.prems(1) by (rule gameLoop_idsOk)
  have f2: "2 \<le> frozen b" using Cons.prems(4) by simp
  have m: "b' \<in> set (balls (run inps ?s1))" using Cons.prems(5) by simp
  show ?case
  proof (cases "\<exists>b1 \<in> set (balls ?s1). ball_id b1 = ball_id b")
    case False
    have "ball_id b < ballIdCounter ?s1"
      using frame_refsOk(1) [OF Cons.prems(1), of inp] Cons.prems(1,2) by (auto simp: idsOk_def)
    with ok1 False have "\<forall>b' \<in> set (balls (run inps ?s1)). ball_id b' \<noteq> ball_id b"
      by (intro run_absent) simp_all
    with m Cons.prems(6) show ?thesis by simp
  next
    case True
    then obtain b1 where b1: "b1 \<in> set (balls ?s1)" "ball_id b1 = ball_id b" by blast
    note fr = frame_frozen [OF Cons.prems(1,2) f2 Cons.prems(3) b1]
    have l: "int (length inps) < frozen b1" using fr(3) Cons.prems(4) by simp
    have i: "ball_id b' = ball_id b1" using Cons.prems(6) b1(2) by simp
    from Cons.IH [OF ok1 b1(1) fr(4) l m i] fr show ?thesis by simp
  qed
qed

text \<open>A freeze pickup, seen at the end of the frame\<close>

lemma frame_freeze:
  assumes "idsOk s" "i < length (balls s)"
    "\<exists>p \<in> set (pickedBy inp i (ballLoopUpto inp (tiles s) (initLoop inp s) i)). pu_type p = Freeze"
    "b' \<in> set (balls (gameLoop inp s))" "team b' \<noteq> team (balls s ! i)"
    "ball_id b' < ballIdCounter s"
  shows "frozen b' = POWERUP_DURATION - 1 \<or> frozen b' = POWERUP_DURATION"
proof -
  let ?L = "ballLoop inp (tiles s) (initLoop inp s)"
  have "\<exists>j < length (balls s). cloneExpiry (balls s ! j) \<noteq> None \<and> b' = l_balls ?L ! j \<and>
            ball_id b' = ball_id (balls s ! j)"
  proof (rule disjE [OF frame_member [OF assms(1,4)]])
    assume "\<exists>j < length (balls s). cloneExpiry (balls s ! j) \<noteq> None \<and> b' = l_balls ?L ! j \<and>
            ball_id b' = ball_id (balls s ! j)"
    then show ?thesis .
  next
    assume "ballIdCounter s \<le> ball_id b' \<and> ball_id b' < ballIdCounter (gameLoop inp s) \<and>
          New b' \<in> set (l_newBalls ?L)"
    with assms(6) have False by simp
    then show ?thesis ..
  qed
  then obtain j where j: "j < length (balls s)" "cloneExpiry (balls s ! j) \<noteq> None"
    "b' = l_balls ?L ! j" by blast
  have tm: "team (balls s ! j) \<noteq> team (balls s ! i)"
    using assms(5) frame_idents(2) [OF j(1), of inp] j(3) by simp
  then have ne: "j \<noteq> i" by auto
  have a: "i < length (l_balls (initLoop inp s))" "j < length (l_balls (initLoop inp s))"
    "team (l_balls (initLoop inp s) ! j) \<noteq> team (l_balls (initLoop inp s) ! i)"
    using assms(2) j(1) tm by (simp_all add: initLoop_fields)
  note fz = ballLoop_freeze [OF a assms(3)]
  show ?thesis
  proof (cases "j < i")
    case True
    from fz(1) [OF True] show ?thesis by (simp add: j(3))
  next
    case False
    with ne have "i < j" by simp
    from fz(2) [OF this] j(2) show ?thesis by (simp add: j(3) initLoop_fields)
  qed
qed

subsection \<open>Freeze\<close>

lemma createInitialTiles_nth:
  "row < ROWS \<Longrightarrow> col < COLS \<Longrightarrow>
   createInitialTiles ! row ! col = Tile (if col < 10 then Left else Right)"
  by (simp add: createInitialTiles_def COLS_def)

lemmas frame_eval_defs =
  gameLoop_def ballLoop_def ballLoopUpto_def processBall_def pickedBy_def
  startPick_def initLoop_def trySpawn_def world_def mkBall_def
  cloneExpiry_def decTimers_def updateTrail_def moveBall_def boundary_def
  reflectLeft_def reflectRight_def reflectTop_def reflectBottom_def inRange_def
  convertTiles_def convertCell_def cellCol_def cellRow_def redirect_def
  tileWidth_def tileHeight_def createInitialTiles_nth
  Let_def COLS_def ROWS_def TRAIL_LENGTH_def POWERUP_DURATION_def POWERUP_SPAWN_INTERVAL_def

lemma freeze_frame_eval:
  "map pu_type (pickedBy world 0 (initLoop world freezeState)) = [Freeze] \<and>
   map ball_id (balls (gameLoop world freezeState)) = [0, 1] \<and>
   map team (balls (gameLoop world freezeState)) = [Left, Right] \<and>
   map frozen (balls (gameLoop world freezeState)) = [0, 179] \<and>
   length (balls (gameLoop world freezeState)) = 2 \<and>
   ball_id (balls (gameLoop world freezeState) ! 1) = 1 \<and>
   team (balls (gameLoop world freezeState) ! 1) = Right \<and>
   frozen (balls (gameLoop world freezeState) ! 1) = 179"
  by (simp add: frame_eval_defs freezeState_def)

text \<open>
  C3, as the specification states it, fails. In a frame where the left ball, first in
  \<open>ballsRef.current\<close>, picks up a freeze, the right ball gets \<open>frozen = 180\<close> during the left
  ball's turn, and its own turn, later in the same frame, decrements the timer: at the end
  of the frame its \<open>frozen\<close> is 179, not 180.
\<close>

theorem C3_freeze_counterexample:
  "map pu_type (pickedBy world 0 (initLoop world freezeState)) = [Freeze] \<and>
   map team (balls (gameLoop world freezeState)) = [Left, Right] \<and>
   map frozen (balls (gameLoop world freezeState)) = [0, 179]"
  using freeze_frame_eval by simp

lemma processBall_thaw:
  assumes "k < length (l_balls st)" "cloneExpiry (l_balls st ! k) = Some b"
    "frozen (l_balls st ! k) \<le> 1"
  shows "ball_x (l_balls (processBall inp tr k st) ! k)
           = ball_x (boundary inp (moveBall inp (updateTrail (decTimers b))))"
    "ball_y (l_balls (processBall inp tr k st) ! k)
           = ball_y (boundary inp (moveBall inp (updateTrail (decTimers b))))"
proof -
  have "frozen b \<le> 1" using cloneExpiry_Some(5) [OF assms(2)] assms(3) by simp
  then have nf: "\<not> frozen (updateTrail (decTimers b)) > 0"
    by (simp add: updateTrail_fields decTimers_fields)
  let ?pk0 = "\<lparr>pk_ball = boundary inp (moveBall inp (updateTrail (decTimers b))),
               pk_balls = l_balls st, pk_newBalls = l_newBalls st,
               pk_ballIdCounter = l_ballIdCounter st, pk_toRemove = []\<rparr>"
  have sp: "startPick inp k st = Some ?pk0"
    using assms(2) nf by (simp add: startPick_def Let_def)
  have len: "k < length (pk_balls (pickupLoop inp (l_powerUps st) ?pk0))"
    using assms(1) by (simp add: pickupLoop_balls_length)
  have e: "l_balls (processBall inp tr k st) ! k
      = redirect inp tr k (pk_ball (pickupLoop inp (l_powerUps st) ?pk0))"
    using len by (simp add: processBall_active [OF sp])
  show "ball_x (l_balls (processBall inp tr k st) ! k)
           = ball_x (boundary inp (moveBall inp (updateTrail (decTimers b))))"
    "ball_y (l_balls (processBall inp tr k st) ! k)
           = ball_y (boundary inp (moveBall inp (updateTrail (decTimers b))))"
    using pickupLoop_ball [of inp "l_powerUps st" ?pk0]
    by (simp_all add: e redirect_fields)
qed

text \<open>
  C3, amended. When the ball at position \<open>i\<close> picks up a freeze in a frame, every ball
  \<open>b1\<close> of another team that is live at the end of the frame and was live at its start
  (its id is below the counter of the start) has \<open>frozen = 180\<close> or \<open>frozen = 179\<close> at the
  end of that frame, and 180 when its turn came before the picker's; in every
  continuation of fewer than \<open>frozen b1\<close> frames, that is across the next \<open>frozen b1 - 1\<close>
  frames, the ball, as long as it is live, is at the same position. A ball whose timer is
  1 (or 0) when its turn starts is moved and reflected in that turn.
\<close>

theorem C3_freeze_amended:
  assumes "idsOk s" and "i < length (balls s)"
    and "\<exists>p \<in> set (pickedBy inp i (ballLoopUpto inp (tiles s) (initLoop inp s) i)).
           pu_type p = Freeze"
    and "b1 \<in> set (balls (gameLoop inp s))" and "team b1 \<noteq> team (balls s ! i)"
    and "ball_id b1 < ballIdCounter s"
  shows "(frozen b1 = 179 \<or> frozen b1 = 180) \<and>
         (\<forall>j < i. ball_id b1 = ball_id (balls s ! j) \<longrightarrow> frozen b1 = 180) \<and>
         (\<forall>b' \<in> set (balls (run inps (gameLoop inp s))).
            int (length inps) < frozen b1 \<and> ball_id b' = ball_id b1 \<longrightarrow>
            ball_x b' = ball_x b1 \<and> ball_y b' = ball_y b1) \<and>
         (\<forall>inp' tr k st b. k < length (l_balls st) \<and> cloneExpiry (l_balls st ! k) = Some b \<and>
            frozen (l_balls st ! k) \<le> 1 \<longrightarrow>
            ball_x (l_balls (processBall inp' tr k st) ! k)
              = ball_x (boundary inp' (moveBall inp' (updateTrail (decTimers b)))) \<and>
            ball_y (l_balls (processBall inp' tr k st) ! k)
              = ball_y (boundary inp' (moveBall inp' (updateTrail (decTimers b)))))"
proof -
  have fz: "frozen b1 = 179 \<or> frozen b1 = 180"
    using frame_freeze [OF assms] by (simp add: POWERUP_DURATION_def)
  then have le: "frozen b1 \<le> POWERUP_DURATION" by (auto simp: POWERUP_DURATION_def)
  have ok: "idsOk (gameLoop inp s)" using assms(1) by (rule gameLoop_idsOk)
  have before: "\<forall>j < i. ball_id b1 = ball_id (balls s ! j) \<longrightarrow> frozen b1 = 180"
  proof (intro allI impI)
    fix j assume ji: "j < i" and id: "ball_id b1 = ball_id (balls s ! j)"
    have j: "j < length (balls s)" using ji assms(2) by simp
    from frame_same_id(1) [OF assms(1) j assms(4) id]
    have b1: "b1 = l_balls (ballLoop inp (tiles s) (initLoop inp s)) ! j" .
    have tm: "team (balls s ! j) \<noteq> team (balls s ! i)"
      using assms(5) frame_idents(2) [OF j, of inp] b1 by simp
    have a: "i < length (l_balls (initLoop inp s))" "j < length (l_balls (initLoop inp s))"
      "team (l_balls (initLoop inp s) ! j) \<noteq> team (l_balls (initLoop inp s) ! i)"
      using assms(2) j tm by (simp_all add: initLoop_fields)
    from ballLoop_freeze(1) [OF a assms(3) ji] show "frozen b1 = 180"
      by (simp add: b1 POWERUP_DURATION_def)
  qed
  have stay: "\<forall>b' \<in> set (balls (run inps (gameLoop inp s))).
            int (length inps) < frozen b1 \<and> ball_id b' = ball_id b1 \<longrightarrow>
            ball_x b' = ball_x b1 \<and> ball_y b' = ball_y b1"
  proof (intro ballI impI)
    fix b' assume m: "b' \<in> set (balls (run inps (gameLoop inp s)))"
      and h: "int (length inps) < frozen b1 \<and> ball_id b' = ball_id b1"
    from h have h1: "int (length inps) < frozen b1" and h2: "ball_id b' = ball_id b1"
      by simp_all
    from frozen_stays [OF ok assms(4) le h1 m h2]
    show "ball_x b' = ball_x b1 \<and> ball_y b' = ball_y b1" by simp
  qed
  have thaw: "\<forall>inp' tr k st b. k < length (l_balls st) \<and> cloneExpiry (l_balls st ! k) = Some b \<and>
            frozen (l_balls st ! k) \<le> 1 \<longrightarrow>
            ball_x (l_balls (processBall inp' tr k st) ! k)
              = ball_x (boundary inp' (moveBall inp' (updateTrail (decTimers b)))) \<and>
            ball_y (l_balls (processBall inp' tr k st) ! k)
              = ball_y (boundary inp' (moveBall inp' (updateTrail (decTimers b))))"
    using processBall_thaw by blast
  from fz before stay thaw show ?thesis by blast
qed

theorem C3_freeze_amended_witness:
  "idsOk freezeState \<and>
   map pu_type (pickedBy world 0 (initLoop world freezeState)) = [Freeze] \<and>
   team (balls (gameLoop world freezeState) ! 1) = Right \<and>
   (frozen (balls (gameLoop world freezeState) ! 1) = 179 \<or>
    frozen (balls (gameLoop world freezeState) ! 1) = 180)"
proof -
  let ?b1 = "balls (gameLoop world freezeState) ! 1"
  have ok: "idsOk freezeState"
    by (simp add: idsOk_def freezeState_def mkBall_def)
  have len: "0 < length (balls freezeState)" by (simp add: freezeState_def)
  have pk: "\<exists>p \<in> set (pickedBy world 0
                (ballLoopUpto world (tiles freezeState) (initLoop world freezeState) 0)).
              pu_type p = Freeze"
  proof -
    have "Freeze \<in> set (map pu_type (pickedBy world 0 (initLoop world freezeState)))"
      using freeze_frame_eval by simp
    then obtain p where "p \<in> set (pickedBy world 0 (initLoop world freezeState))"
      "pu_type p = Freeze" by auto
    then show ?thesis unfolding ballLoopUpto_0 by blast
  qed
  have l2: "length (balls (gameLoop world freezeState)) = 2"
    using freeze_frame_eval by simp
  have m: "?b1 \<in> set (balls (gameLoop world freezeState))"
    using l2 by (intro nth_mem) simp
  have tm1: "team ?b1 = Right"
    using freeze_frame_eval by simp
  have tm: "team ?b1 \<noteq> team (balls freezeState ! 0)"
    using tm1 by (simp add: freezeState_def mkBall_def)
  have id: "ball_id ?b1 < ballIdCounter freezeState"
    using freeze_frame_eval by (simp add: freezeState_def)
  from C3_freeze_amended [OF ok len pk m tm id, of "[]"] ok freeze_frame_eval tm1
  show ?thesis by simp
qed

subsection \<open>The grid\<close>

lemma gridOk_update:
  assumes "gridOk g" "r < ROWS"
  shows "gridOk (g[r := (g ! r)[c := t]])"
proof -
  from assms have len: "length g = ROWS" and rows: "\<forall>row \<in> set g. length row = COLS"
    by (simp_all add: gridOk_def list_all_iff)
  have "\<forall>row \<in> set (g[r := (g ! r)[c := t]]). length row = COLS"
  proof
    fix row assume "row \<in> set (g[r := (g ! r)[c := t]])"
    then have "row = (g ! r)[c := t] \<or> row \<in> set g"
      using set_update_subset_insert [of g r "(g ! r)[c := t]"] by auto
    moreover have "g ! r \<in> set g" using assms(2) len by simp
    ultimately show "length row = COLS" using rows by auto
  qed
  with len show ?thesis by (simp add: gridOk_def list_all_iff)
qed

lemma convertCell_gridOk:
  assumes "gridOk (fst gc)"
  shows "gridOk (fst (convertCell t r c gc))"
proof (cases "r \<ge> 0 \<and> r < int ROWS \<and> c \<ge> 0 \<and> c < int COLS \<and>
              tile_team (fst gc ! nat r ! nat c) \<noteq> t")
  case True
  then have "nat r < ROWS" by linarith
  with True assms show ?thesis
    using gridOk_update [of "fst gc" "nat r" "nat c" "Tile t"]
    by (simp add: convertCell_def)
next
  case False
  with assms show ?thesis by (auto simp: convertCell_def)
qed

lemma foldl_invariant:
  assumes "P a" "\<And>acc x. P acc \<Longrightarrow> P (f acc x)"
  shows "P (foldl f a xs)"
  using assms(1) by (induction xs arbitrary: a) (simp_all add: assms(2))

lemma convertTiles_gridOk:
  assumes "gridOk (fst gc)"
  shows "gridOk (fst (convertTiles inp b gc))"
  unfolding convertTiles_def Let_def
  by (rule foldl_invariant [where P = "\<lambda>gc. gridOk (fst gc)"])
     (auto simp: assms convertCell_gridOk)

lemma processBall_gridOk:
  assumes "gridOk (l_newTiles st)"
  shows "gridOk (l_newTiles (processBall inp tr i st))"
proof (cases rule: processBall_cases [of st i inp tr])
  case expired
  then show ?thesis using assms by simp
next
  case (frozen b1)
  then show ?thesis using assms by simp
next
  case (active pk0)
  show ?thesis
    using assms by (simp add: processBall_active [OF active] convertTiles_gridOk)
qed

lemma ballLoopUpto_gridOk:
  "gridOk (l_newTiles st) \<Longrightarrow> gridOk (l_newTiles (ballLoopUpto inp tr st k))"
  by (induction k) (simp_all add: ballLoopUpto_0 ballLoopUpto_Suc processBall_gridOk)

lemma gameLoop_gridOk:
  assumes "gridOk (tiles s)"
  shows "gridOk (tiles (gameLoop inp s))"
  using assms ballLoopUpto_gridOk [of "initLoop inp s" inp "tiles s" "length (balls s)"]
  by (simp add: gameLoop_fields ballLoop_def initLoop_fields)

lemma run_gridOk: "gridOk (tiles s) \<Longrightarrow> gridOk (tiles (run inps s))"
  by (induction inps arbitrary: s) (simp_all add: gameLoop_gridOk)

lemma initialState_gridOk: "gridOk (tiles (initialState tw th r1 r2))"
  by (simp add: initialState_def createInitialBalls_def Let_def gridOk_def createInitialTiles_def
      list_all_iff)

text \<open>Counting\<close>

lemma count_foldl:
  "foldl (\<lambda>(l, r) (row, col). if Q row col then (l + 1, r) else (l, r + 1)) (a, b) xs
     = (a + length (filter (\<lambda>(row, col). Q row col) xs),
        b + length (filter (\<lambda>(row, col). \<not> Q row col) xs))"
  by (induction xs arbitrary: a b) (simp_all add: case_prod_unfold)

lemma countTiles_filter:
  "countTiles g =
     (length (filter (\<lambda>(row, col). tile_team (g ! row ! col) = Left)
                (List.product [0..<ROWS] [0..<COLS])),
      length (filter (\<lambda>(row, col). tile_team (g ! row ! col) \<noteq> Left)
                (List.product [0..<ROWS] [0..<COLS])))"
  unfolding countTiles_def
  using count_foldl [of "\<lambda>row col. tile_team (g ! row ! col) = Left" 0 0
      "List.product [0..<ROWS] [0..<COLS]"]
  by simp

lemma countTiles_sum: "fst (countTiles g) + snd (countTiles g) = ROWS * COLS"
proof -
  have "length (filter P xs) + length (filter (\<lambda>x. \<not> P x) xs) = length xs" for P and xs :: "(nat \<times> nat) list"
    using sum_length_filter_compl [of P xs] by simp
  then show ?thesis
    by (simp add: countTiles_filter case_prod_unfold)
qed

lemma map_product:
  "map f (List.product xs ys) = concat (map (\<lambda>x. map (\<lambda>y. f (x, y)) ys) xs)"
  by (induction xs) simp_all

lemma gridOk_cells:
  assumes "gridOk g"
  shows "map (\<lambda>(row, col). g ! row ! col) (List.product [0..<ROWS] [0..<COLS]) = concat g"
proof -
  from assms have len: "length g = ROWS" and rows: "\<forall>row \<in> set g. length row = COLS"
    by (simp_all add: gridOk_def list_all_iff)
  have "map (\<lambda>row. map (\<lambda>col. g ! row ! col) [0..<COLS]) [0..<ROWS] = map (\<lambda>row. g ! row) [0..<ROWS]"
  proof (rule map_cong [OF refl])
    fix row assume "row \<in> set [0..<ROWS]"
    then have "g ! row \<in> set g" using len by simp
    then have "length (g ! row) = COLS" using rows by simp
    then show "map (\<lambda>col. g ! row ! col) [0..<COLS] = g ! row"
      using map_nth [of "g ! row"] by simp
  qed
  also have "\<dots> = g" using map_nth [of g] len by simp
  finally show ?thesis by (simp add: map_product)
qed

lemma countTiles_cells:
  assumes "gridOk g"
  shows "fst (countTiles g) = length (filter (\<lambda>t. tile_team t = Left) (concat g))"
    "snd (countTiles g) = length (filter (\<lambda>t. tile_team t = Right) (concat g))"
    "length (concat g) = ROWS * COLS"
proof -
  let ?cells = "List.product [0..<ROWS] [0..<COLS]"
  let ?get = "\<lambda>(row, col). g ! row ! col"
  note c = gridOk_cells [OF assms]
  have l: "(\<lambda>(row, col). tile_team (g ! row ! col) = Left) = (\<lambda>t. tile_team t = Left) \<circ> ?get"
    and r: "(\<lambda>(row, col). tile_team (g ! row ! col) \<noteq> Left) = (\<lambda>t. tile_team t = Right) \<circ> ?get"
    by (auto simp: fun_eq_iff intro: Team.exhaust)
  have "length (filter ((\<lambda>t. tile_team t = Left) \<circ> ?get) ?cells)
      = length (filter (\<lambda>t. tile_team t = Left) (map ?get ?cells))"
    by (simp only: filter_map length_map)
  then show "fst (countTiles g) = length (filter (\<lambda>t. tile_team t = Left) (concat g))"
    by (simp add: countTiles_filter l c)
  have "length (filter ((\<lambda>t. tile_team t = Right) \<circ> ?get) ?cells)
      = length (filter (\<lambda>t. tile_team t = Right) (map ?get ?cells))"
    by (simp only: filter_map length_map)
  then show "snd (countTiles g) = length (filter (\<lambda>t. tile_team t = Right) (concat g))"
    by (simp add: countTiles_filter r c)
  have "length (map ?get ?cells) = ROWS * COLS" by simp
  then show "length (concat g) = ROWS * COLS" by (simp only: c)
qed

text \<open>
  C6. In every state reached from the initial state, whatever the frames' inputs, the grid
  has \<open>ROWS\<close> rows of \<open>COLS\<close> cells (240 cells: none is created or destroyed), every cell is
  owned by Left or by Right, \<open>countTiles\<close> returns the number of Left cells and the number
  of Right cells, and the two counts add up to \<open>ROWS \<times> COLS = 240\<close>.
\<close>

theorem C6_grid_partition:
  "gridOk (tiles (run inps (initialState tw th r1 r2))) \<and>
   length (concat (tiles (run inps (initialState tw th r1 r2)))) = 240 \<and>
   list_all (\<lambda>t. tile_team t = Left \<or> tile_team t = Right)
     (concat (tiles (run inps (initialState tw th r1 r2)))) \<and>
   fst (countTiles (tiles (run inps (initialState tw th r1 r2))))
     = length (filter (\<lambda>t. tile_team t = Left) (concat (tiles (run inps (initialState tw th r1 r2))))) \<and>
   snd (countTiles (tiles (run inps (initialState tw th r1 r2))))
     = length (filter (\<lambda>t. tile_team t = Right) (concat (tiles (run inps (initialState tw th r1 r2))))) \<and>
   fst (countTiles (tiles (run inps (initialState tw th r1 r2))))
     + snd (countTiles (tiles (run inps (initialState tw th r1 r2)))) = ROWS * COLS \<and>
   ROWS * COLS = 240"
proof -
  let ?g = "tiles (run inps (initialState tw th r1 r2))"
  have ok: "gridOk ?g" using initialState_gridOk by (rule run_gridOk)
  have "list_all (\<lambda>t. tile_team t = Left \<or> tile_team t = Right) (concat ?g)"
    unfolding list_all_iff using Team.exhaust by blast
  moreover have "ROWS * COLS = 240" by (simp add: ROWS_def COLS_def)
  ultimately show ?thesis
    using ok countTiles_cells [OF ok] countTiles_sum [of ?g] by simp
qed

subsection \<open>High scores\<close>

lemma run_frameCount: "frameCount (run inps s) = frameCount s + length inps"
  by (induction inps arbitrary: s) (simp_all add: gameLoop_fields)

lemma run_append: "run (inps @ [inp]) s = gameLoop inp (run inps s)"
  by (induction inps arbitrary: s) simp_all

lemma run_highScores_early:
  "frameCount s + length inps \<le> HIGHSCORE_DELAY \<Longrightarrow> highScores (run inps s) = highScores s"
proof (induction inps arbitrary: s)
  case Nil
  show ?case by simp
next
  case (Cons inp inps)
  have "highScores (gameLoop inp s) = highScores s"
    using Cons.prems by (simp add: gameLoop_fields updateHighScores_def)
  moreover have "highScores (run inps (gameLoop inp s)) = highScores (gameLoop inp s)"
    using Cons.prems by (intro Cons.IH) (simp add: gameLoop_fields)
  ultimately show ?case by simp
qed

text \<open>
  C4. Start from the initial state and run any frames. As long as the frame index (the
  number of frames run) is at most 600, the high scores are \<open>(120, 120)\<close>, the even split
  \<open>ROWS \<times> COLS / 2\<close>. A frame with index above 600 sets each team's high score to the
  maximum of its previous value and the team's tile count of that frame. In every frame
  each high score is at least what it was.
\<close>

theorem C4_high_scores:
  "(length inps \<le> 600 \<longrightarrow> highScores (run inps (initialState tw th r1 r2)) = (120, 120)) \<and>
   (600 < length inps + 1 \<longrightarrow>
      highScores (run (inps @ [inp]) (initialState tw th r1 r2))
        = (max (fst (highScores (run inps (initialState tw th r1 r2))))
               (fst (countTiles (tiles (run (inps @ [inp]) (initialState tw th r1 r2))))),
           max (snd (highScores (run inps (initialState tw th r1 r2))))
               (snd (countTiles (tiles (run (inps @ [inp]) (initialState tw th r1 r2))))))) \<and>
   fst (highScores (run inps (initialState tw th r1 r2)))
     \<le> fst (highScores (run (inps @ [inp]) (initialState tw th r1 r2))) \<and>
   snd (highScores (run inps (initialState tw th r1 r2)))
     \<le> snd (highScores (run (inps @ [inp]) (initialState tw th r1 r2))) \<and>
   frameCount (run inps (initialState tw th r1 r2)) = length inps \<and>
   COLS * ROWS div 2 = 120"
proof -
  let ?init = "initialState tw th r1 r2"
  let ?s = "run inps ?init"
  have fc0: "frameCount ?init = 0" and hs0: "highScores ?init = (120, 120)"
    by (simp_all add: initialState_def createInitialBalls_def Let_def COLS_def ROWS_def)
  have fc: "frameCount ?s = length inps" by (simp add: run_frameCount fc0)
  have early: "length inps \<le> 600 \<longrightarrow> highScores ?s = (120, 120)"
    using run_highScores_early [of ?init inps] by (simp add: fc0 hs0 HIGHSCORE_DELAY_def)
  have hs: "highScores (gameLoop inp ?s)
      = updateHighScores (length inps + 1) (countTiles (tiles (gameLoop inp ?s))) (highScores ?s)"
    by (simp add: gameLoop_fields fc)
  have late: "600 < length inps + 1 \<longrightarrow> highScores (gameLoop inp ?s)
        = (max (fst (highScores ?s)) (fst (countTiles (tiles (gameLoop inp ?s)))),
           max (snd (highScores ?s)) (snd (countTiles (tiles (gameLoop inp ?s)))))"
    unfolding hs by (simp add: updateHighScores_def HIGHSCORE_DELAY_def max_def)
  have mono: "fst (highScores ?s) \<le> fst (highScores (gameLoop inp ?s))"
    "snd (highScores ?s) \<le> snd (highScores (gameLoop inp ?s))"
    unfolding hs by (simp_all add: updateHighScores_def)
  have "COLS * ROWS div 2 = 120" by (simp add: COLS_def ROWS_def)
  with early late mono fc show ?thesis by (simp only: run_append simp_thms)
qed

theorem C4_high_scores_witness:
  "length [world] \<le> 600 \<and> highScores (run [world] (initialState 40 40 (1/2) (1/2))) = (120, 120)"
  using C4_high_scores [of "[world]" 40 40 "1/2" "1/2" world] by simp

subsection \<open>The power-up registry\<close>

lemma pickedBy_subset: "set (pickedBy inp i st) \<subseteq> set (l_powerUps st)"
  by (cases "startPick inp i st") (simp_all add: pickedBy_def picked_subset)

lemma pickedBy_distinct:
  "distinct (map pu_id (l_powerUps st)) \<Longrightarrow> distinct (map pu_id (pickedBy inp i st))"
  by (cases "startPick inp i st") (simp_all add: pickedBy_def picked_distinct)

lemma processBall_powerUps_subset:
  "set (l_powerUps (processBall inp tr i st)) \<subseteq> set (l_powerUps st)"
  "length (l_powerUps (processBall inp tr i st)) \<le> length (l_powerUps st)"
  by (simp_all add: processBall_powerUps)

lemma ballLoopUpto_powerUps_length:
  "length (l_powerUps (ballLoopUpto inp tr st k)) \<le> length (l_powerUps st)"
proof (induction k)
  case 0
  show ?case by (simp add: ballLoopUpto_0)
next
  case (Suc k)
  have "length (l_powerUps (processBall inp tr k (ballLoopUpto inp tr st k)))
      \<le> length (l_powerUps (ballLoopUpto inp tr st k))"
    by (rule processBall_powerUps_subset)
  with Suc show ?case by (simp add: ballLoopUpto_Suc)
qed

lemma trySpawn_length:
  "length ps \<le> 3 \<Longrightarrow> length (fst (trySpawn inp fc ps ctr)) \<le> 3"
  by (simp add: trySpawn_def)

lemma gameLoop_powerUps_length:
  assumes "length (powerUps s) \<le> 3"
  shows "length (powerUps (gameLoop inp s)) \<le> 3"
proof -
  have "length (powerUps (gameLoop inp s)) \<le> length (l_powerUps (initLoop inp s))"
    by (simp add: gameLoop_fields ballLoop_def ballLoopUpto_powerUps_length)
  also have "\<dots> \<le> 3" using assms by (simp add: initLoop_fields trySpawn_length)
  finally show ?thesis .
qed

lemma run_powerUps_length:
  "length (powerUps s) \<le> 3 \<Longrightarrow> length (powerUps (run inps s)) \<le> 3"
  by (induction inps arbitrary: s) (simp_all add: gameLoop_powerUps_length)

lemma spawn_position:
  fixes u w :: real
  assumes "0 \<le> u" "u < 1" "60 \<le> w"
  shows "30 \<le> u * (w - 60) + 30" "u * (w - 60) + 30 \<le> w - 30"
proof -
  have a: "0 \<le> w - 60" using assms(3) by simp
  have "0 \<le> u * (w - 60)" using assms(1) a by (rule mult_nonneg_nonneg)
  then show "30 \<le> u * (w - 60) + 30" by simp
  have "u * (w - 60) \<le> 1 * (w - 60)"
    using assms(2) a by (intro mult_right_mono) simp_all
  then show "u * (w - 60) + 30 \<le> w - 30" by simp
qed

text \<open>
  C9, as the specification states it, fails in its bound on the position: in a world less
  than 60 wide the interval \<open>[30, width - 30]\<close> is empty. With \<open>width = 50\<close> and the random
  draw \<open>1/2\<close> the power-up is placed at \<open>x = 25\<close>.
\<close>

theorem C9_spawn_position_counterexample:
  "\<not> (30 \<le> pu_x (spawnPowerUp tinyWorld 0))"
  by (simp add: spawnPowerUp_def tinyWorld_def)

subsection \<open>Each power-up is picked up at most once\<close>

lemma pick_step_distinct:
  assumes "distinct (map f (acc @ L))" "set P \<subseteq> set L" "distinct (map f P)"
  shows "distinct (map f ((acc @ P) @ filter (\<lambda>p. f p \<notin> f ` set P) L))"
    "set ((acc @ P) @ filter (\<lambda>p. f p \<notin> f ` set P) L) \<subseteq> set (acc @ L)"
proof -
  let ?R = "filter (\<lambda>p. f p \<notin> f ` set P) L"
  from assms(1) have da: "distinct (map f acc)" and dl: "distinct (map f L)"
    and al: "\<forall>x \<in> set acc. \<forall>y \<in> set L. f x \<noteq> f y"
    by auto
  have dr: "distinct (map f ?R)" using dl by (rule distinct_map_filter)
  have ap: "\<forall>x \<in> set acc. \<forall>y \<in> set P. f x \<noteq> f y" using al assms(2) by blast
  have ar: "\<forall>x \<in> set acc. \<forall>z \<in> set ?R. f x \<noteq> f z" using al by simp
  have pr: "\<forall>y \<in> set P. \<forall>z \<in> set ?R. f y \<noteq> f z"
  proof (intro ballI)
    fix y z assume y: "y \<in> set P" and "z \<in> set ?R"
    then have "f z \<notin> f ` set P" by simp
    moreover have "f y \<in> f ` set P" using y by (rule imageI)
    ultimately show "f y \<noteq> f z" by metis
  qed
  have "distinct (map f (acc @ P @ ?R))"
    using da assms(3) dr ap ar pr by (rule distinct_map_append3)
  then show "distinct (map f ((acc @ P) @ ?R))" by simp
  show "set ((acc @ P) @ ?R) \<subseteq> set (acc @ L)" using assms(2) by auto
qed

lemma pickedUpto_Suc:
  "pickedUpto inp tr st (Suc k)
     = pickedUpto inp tr st k @ pickedBy inp k (ballLoopUpto inp tr st k)"
  by (simp add: pickedUpto_def)

lemma ballLoopUpto_picked:
  assumes "distinct (map pu_id (l_powerUps st))"
  shows "distinct (map pu_id (pickedUpto inp tr st k @ l_powerUps (ballLoopUpto inp tr st k))) \<and>
         set (pickedUpto inp tr st k @ l_powerUps (ballLoopUpto inp tr st k))
           \<subseteq> set (l_powerUps st)"
proof (induction k)
  case 0
  show ?case using assms by (simp add: pickedUpto_def ballLoopUpto_0)
next
  case (Suc k)
  let ?sk = "ballLoopUpto inp tr st k"
  let ?P = "pickedBy inp k ?sk"
  from Suc have d: "distinct (map pu_id (pickedUpto inp tr st k @ l_powerUps ?sk))"
    and s: "set (pickedUpto inp tr st k @ l_powerUps ?sk) \<subseteq> set (l_powerUps st)"
    by simp_all
  have dl: "distinct (map pu_id (l_powerUps ?sk))" using d by simp
  have p: "set ?P \<subseteq> set (l_powerUps ?sk)" by (rule pickedBy_subset)
  have dp: "distinct (map pu_id ?P)" using dl by (rule pickedBy_distinct)
  note st = pick_step_distinct [OF d p dp]
  have eq: "pickedUpto inp tr st (Suc k) @ l_powerUps (ballLoopUpto inp tr st (Suc k))
      = (pickedUpto inp tr st k @ ?P) @ filter (\<lambda>p. pu_id p \<notin> pu_id ` set ?P) (l_powerUps ?sk)"
    by (simp add: pickedUpto_Suc ballLoopUpto_Suc processBall_powerUps)
  show ?case unfolding eq using st s by blast
qed

lemma trySpawn_puOk:
  assumes "distinct (map pu_id ps)" "\<forall>p \<in> set ps. pu_id p < ctr"
  shows "distinct (map pu_id (fst (trySpawn inp fc ps ctr)))"
    "\<forall>p \<in> set (fst (trySpawn inp fc ps ctr)). pu_id p < snd (trySpawn inp fc ps ctr)"
    "\<forall>p \<in> set (fst (trySpawn inp fc ps ctr)). pu_id p \<in> pu_id ` set ps \<or> ctr \<le> pu_id p"
    "ctr \<le> snd (trySpawn inp fc ps ctr)"
  using assms by (auto simp: trySpawn_def spawnPowerUp_def)

lemma framePicked_pickedUpto:
  "framePicked inp s = pickedUpto inp (tiles s) (initLoop inp s) (length (balls s))"
  by (simp add: framePicked_def pickedUpto_def)

lemma frame_picked:
  assumes "puOk s"
  shows "distinct (map pu_id (framePicked inp s @ powerUps (gameLoop inp s)))"
    "\<forall>p \<in> set (framePicked inp s @ powerUps (gameLoop inp s)).
        pu_id p < powerUpIdCounter (gameLoop inp s) \<and>
        (pu_id p \<in> pu_id ` set (powerUps s) \<or> powerUpIdCounter s \<le> pu_id p)"
    "powerUpIdCounter s \<le> powerUpIdCounter (gameLoop inp s)"
proof -
  from assms have d: "distinct (map pu_id (powerUps s))"
    and b: "\<forall>p \<in> set (powerUps s). pu_id p < powerUpIdCounter s"
    by (simp_all add: puOk_def)
  note sp = trySpawn_puOk [OF d b, of inp "frameCount s + 1"]
  have d0: "distinct (map pu_id (l_powerUps (initLoop inp s)))"
    using sp(1) by (simp add: initLoop_fields)
  from ballLoopUpto_picked [OF d0, of inp "tiles s" "length (balls s)"]
  have dd: "distinct (map pu_id (framePicked inp s @ powerUps (gameLoop inp s)))"
    and ss: "set (framePicked inp s @ powerUps (gameLoop inp s))
        \<subseteq> set (fst (trySpawn inp (frameCount s + 1) (powerUps s) (powerUpIdCounter s)))"
    by (simp_all add: framePicked_pickedUpto gameLoop_fields ballLoop_def initLoop_fields)
  show "distinct (map pu_id (framePicked inp s @ powerUps (gameLoop inp s)))" by (rule dd)
  show "\<forall>p \<in> set (framePicked inp s @ powerUps (gameLoop inp s)).
        pu_id p < powerUpIdCounter (gameLoop inp s) \<and>
        (pu_id p \<in> pu_id ` set (powerUps s) \<or> powerUpIdCounter s \<le> pu_id p)"
  proof
    fix p assume "p \<in> set (framePicked inp s @ powerUps (gameLoop inp s))"
    with ss have "p \<in> set (fst (trySpawn inp (frameCount s + 1) (powerUps s) (powerUpIdCounter s)))"
      by blast
    with sp(2,3) show "pu_id p < powerUpIdCounter (gameLoop inp s) \<and>
        (pu_id p \<in> pu_id ` set (powerUps s) \<or> powerUpIdCounter s \<le> pu_id p)"
      by (simp add: gameLoop_fields)
  qed
  show "powerUpIdCounter s \<le> powerUpIdCounter (gameLoop inp s)"
    using sp(4) by (simp add: gameLoop_fields)
qed

lemma gameLoop_puOk:
  assumes "puOk s"
  shows "puOk (gameLoop inp s)"
  using frame_picked(1,2) [OF assms, of inp] by (simp add: puOk_def)

lemma run_picked:
  assumes "puOk s"
  shows "distinct (map pu_id (runPicked inps s)) \<and>
         (\<forall>p \<in> set (runPicked inps s).
            pu_id p \<in> pu_id ` set (powerUps s) \<or> powerUpIdCounter s \<le> pu_id p)"
  using assms
proof (induction inps arbitrary: s)
  case Nil
  show ?case by simp
next
  case (Cons inp inps)
  let ?s1 = "gameLoop inp s"
  let ?F = "framePicked inp s" and ?R = "runPicked inps ?s1"
  note fp = frame_picked [OF Cons.prems, of inp]
  have ok1: "puOk ?s1" using Cons.prems by (rule gameLoop_puOk)
  from Cons.IH [OF ok1] have dr: "distinct (map pu_id ?R)"
    and br: "\<forall>p \<in> set ?R. pu_id p \<in> pu_id ` set (powerUps ?s1) \<or> powerUpIdCounter ?s1 \<le> pu_id p"
    by simp_all
  have df: "distinct (map pu_id ?F)" using fp(1) by simp
  have disj: "\<forall>x \<in> set ?F. \<forall>y \<in> set ?R. pu_id x \<noteq> pu_id y"
  proof (intro ballI)
    fix x y assume x: "x \<in> set ?F" and y: "y \<in> set ?R"
    have x1: "pu_id x < powerUpIdCounter ?s1" using fp(2) x by simp
    have x2: "pu_id x \<notin> pu_id ` set (powerUps ?s1)" using fp(1) x by auto
    from br y have "pu_id y \<in> pu_id ` set (powerUps ?s1) \<or> powerUpIdCounter ?s1 \<le> pu_id y"
      by simp
    then show "pu_id x \<noteq> pu_id y" using x1 x2 by auto
  qed
  have "distinct (map pu_id (?F @ ?R @ []))"
    using df dr _ disj by (rule distinct_map_append3) simp_all
  then have D: "distinct (map pu_id (runPicked (inp # inps) s))" by simp
  have B: "\<forall>p \<in> set (runPicked (inp # inps) s).
            pu_id p \<in> pu_id ` set (powerUps s) \<or> powerUpIdCounter s \<le> pu_id p"
  proof
    fix p assume "p \<in> set (runPicked (inp # inps) s)"
    then consider "p \<in> set ?F" | "p \<in> set ?R" by auto
    then show "pu_id p \<in> pu_id ` set (powerUps s) \<or> powerUpIdCounter s \<le> pu_id p"
    proof cases
      case 1
      then show ?thesis using fp(2) by simp
    next
      case 2
      with br have "pu_id p \<in> pu_id ` set (powerUps ?s1) \<or> powerUpIdCounter ?s1 \<le> pu_id p"
        by simp
      then show ?thesis
      proof
        assume "pu_id p \<in> pu_id ` set (powerUps ?s1)"
        then obtain q where "q \<in> set (powerUps ?s1)" "pu_id q = pu_id p" by auto
        with fp(2) show ?thesis by (metis Un_iff set_append)
      next
        assume "powerUpIdCounter ?s1 \<le> pu_id p"
        with fp(3) show ?thesis by simp
      qed
    qed
  qed
  from D B show ?case by blast
qed

lemma initialState_puOk: "puOk (initialState tw th r1 r2)"
  by (simp add: puOk_def initialState_def createInitialBalls_def Let_def)

subsection \<open>Each power-up is consumed once\<close>

lemma ballLoopUpto_powerUps_later:
  "set (l_powerUps (ballLoopUpto inp tr st (m + k))) \<subseteq> set (l_powerUps (ballLoopUpto inp tr st m))"
proof (induction k)
  case 0
  show ?case by simp
next
  case (Suc k)
  have "set (l_powerUps (processBall inp tr (m + k) (ballLoopUpto inp tr st (m + k))))
      \<subseteq> set (l_powerUps (ballLoopUpto inp tr st (m + k)))"
    by (rule processBall_powerUps_subset)
  with Suc show ?case by (simp add: ballLoopUpto_Suc)
qed

lemma freeze_pickedBy_eval:
  "pickedBy world 0 (initLoop world freezeState) = powerUps freezeState \<and>
   powerUps freezeState
     = [\<lparr>pu_id = 0, pu_x = 104, pu_y = 240, pu_type = Freeze, spawnTime = 0\<rparr>]"
  by (simp add: frame_eval_defs freezeState_def)

text \<open>
  C10. In every run from the initial state, the pickups (the power-ups whose effect is
  applied, over all balls and frames, in order) have pairwise different ids: no power-up
  has its effect applied twice. A power-up picked in the turn of ball \<open>i\<close> was in the
  registry and is not in it when the turn ends; a turn only removes from the registry, so
  the registry of every later turn of the frame is within the registry left by turn \<open>i\<close>.
\<close>

theorem C10_powerup_consumed_once:
  "distinct (map pu_id (runPicked inps (initialState tw th r1 r2))) \<and>
   (\<forall>p \<in> set (pickedBy inp i st).
      p \<in> set (l_powerUps st) \<and> p \<notin> set (l_powerUps (processBall inp tr i st))) \<and>
   set (l_powerUps (processBall inp tr i st)) \<subseteq> set (l_powerUps st) \<and>
   set (l_powerUps (ballLoopUpto inp tr st (Suc i + k)))
     \<subseteq> set (l_powerUps (processBall inp tr i (ballLoopUpto inp tr st i)))"
proof -
  have a: "distinct (map pu_id (runPicked inps (initialState tw th r1 r2)))"
    using run_picked [OF initialState_puOk] by simp
  have b: "\<forall>p \<in> set (pickedBy inp i st).
      p \<in> set (l_powerUps st) \<and> p \<notin> set (l_powerUps (processBall inp tr i st))"
  proof
    fix p assume p: "p \<in> set (pickedBy inp i st)"
    then have "p \<in> set (l_powerUps st)" using pickedBy_subset by blast
    moreover have "pu_id p \<in> pu_id ` set (pickedBy inp i st)" using p by (rule imageI)
    then have "p \<notin> set (l_powerUps (processBall inp tr i st))"
      by (simp add: processBall_powerUps)
    ultimately show "p \<in> set (l_powerUps st) \<and> p \<notin> set (l_powerUps (processBall inp tr i st))"
      by simp
  qed
  have c: "set (l_powerUps (processBall inp tr i st)) \<subseteq> set (l_powerUps st)"
    by (rule processBall_powerUps_subset)
  have d: "set (l_powerUps (ballLoopUpto inp tr st (Suc i + k)))
     \<subseteq> set (l_powerUps (processBall inp tr i (ballLoopUpto inp tr st i)))"
    using ballLoopUpto_powerUps_later [of inp tr st "Suc i" k] by (simp add: ballLoopUpto_Suc)
  from a b c d show ?thesis by blast
qed

theorem C10_powerup_consumed_once_witness:
  "pickedBy world 0 (initLoop world freezeState) = powerUps freezeState \<and>
   hd (powerUps freezeState) \<in> set (l_powerUps (initLoop world freezeState)) \<and>
   hd (powerUps freezeState)
     \<notin> set (l_powerUps (processBall world (tiles freezeState) 0 (initLoop world freezeState)))"
proof -
  have m: "hd (powerUps freezeState) \<in> set (pickedBy world 0 (initLoop world freezeState))"
    using freeze_pickedBy_eval by simp
  from C10_powerup_consumed_once
    [of "[]" 40 40 "1/2" "1/2" world 0 "initLoop world freezeState" "tiles freezeState" 0]
  have "\<forall>p \<in> set (pickedBy world 0 (initLoop world freezeState)).
      p \<in> set (l_powerUps (initLoop world freezeState)) \<and>
      p \<notin> set (l_powerUps (processBall world (tiles freezeState) 0 (initLoop world freezeState)))"
    by blast
  with m freeze_pickedBy_eval show ?thesis by blast
qed

subsection \<open>The heading change\<close>

lemma sqrt_16: "sqrt 16 = 4"
  using real_sqrt_abs [of 4] by simp

lemma createInitialTiles_length:
  "length createInitialTiles = 12" "row < 12 \<Longrightarrow> length (createInitialTiles ! row) = 20"
  by (simp_all add: createInitialTiles_def ROWS_def COLS_def)

text \<open>
  C2: the specification has the heading change happen exactly when the ball's own
  conversion step changes the owner of the cell under its centre. The code tests the owner
  in \<open>tilesRef.current\<close>, the grid of the start of the frame, while the conversion works on
  \<open>newTiles\<close>. Two failing inputs, in a world of 800 by 480 (cells of 40 by 40):

  \<^item> \<open>redirectState\<close>: two Left balls end their moves in the Right cell (row 2, column 10).
    The first converts it. When the second's turn comes the cell is Left in \<open>newTiles\<close>, so
    its conversion step changes nothing; yet its velocity goes from \<open>(0, 4)\<close> to \<open>(-4, 0)\<close>.
  \<^item> \<open>reconvertState\<close>: a Right ball converts the Left cell (row 2, column 9), then a Left
    ball converts it back (Right to Left in \<open>newTiles\<close>); its velocity stays \<open>(0, 4)\<close>.
\<close>

theorem C2_heading_change_uses_frame_start_grid:
  "tiles redirectState ! 2 ! 10 = Tile Right \<and>
   map team (balls redirectState) = [Left, Left] \<and>
   map_option (\<lambda>pk. (cellRow world (pk_ball pk), cellCol world (pk_ball pk)))
     (startPick world 1 (ballLoopUpto world (tiles redirectState) (initLoop world redirectState) 1))
     = Some (2, 10) \<and>
   l_newTiles (ballLoopUpto world (tiles redirectState) (initLoop world redirectState) 1) ! 2 ! 10
     = Tile Left \<and>
   vx (balls redirectState ! 1) = 0 \<and> vy (balls redirectState ! 1) = 4 \<and>
   ball_id (balls (gameLoop world redirectState) ! 1) = ball_id (balls redirectState ! 1) \<and>
   vx (balls (gameLoop world redirectState) ! 1) = - 4 \<and>
   vy (balls (gameLoop world redirectState) ! 1) = 0 \<and>
   tiles reconvertState ! 2 ! 9 = Tile Left \<and>
   map team (balls reconvertState) = [Right, Left] \<and>
   map_option (\<lambda>pk. (cellRow world (pk_ball pk), cellCol world (pk_ball pk)))
     (startPick world 1 (ballLoopUpto world (tiles reconvertState) (initLoop world reconvertState) 1))
     = Some (2, 9) \<and>
   l_newTiles (ballLoopUpto world (tiles reconvertState) (initLoop world reconvertState) 1) ! 2 ! 9
     = Tile Right \<and>
   l_newTiles (ballLoop world (tiles reconvertState) (initLoop world reconvertState)) ! 2 ! 9
     = Tile Left \<and>
   vx (balls reconvertState ! 1) = 0 \<and> vy (balls reconvertState ! 1) = 4 \<and>
   ball_id (balls (gameLoop world reconvertState) ! 1) = ball_id (balls reconvertState ! 1) \<and>
   vx (balls (gameLoop world reconvertState) ! 1) = 0 \<and>
   vy (balls (gameLoop world reconvertState) ! 1) = 4"
proof -
  have a: "tiles redirectState ! 2 ! 10 = Tile Right \<and>
   map team (balls redirectState) = [Left, Left] \<and>
   map_option (\<lambda>pk. (cellRow world (pk_ball pk), cellCol world (pk_ball pk)))
     (startPick world 1 (ballLoopUpto world (tiles redirectState) (initLoop world redirectState) 1))
     = Some (2, 10) \<and>
   l_newTiles (ballLoopUpto world (tiles redirectState) (initLoop world redirectState) 1) ! 2 ! 10
     = Tile Left \<and>
   vx (balls redirectState ! 1) = 0 \<and> vy (balls redirectState ! 1) = 4 \<and>
   ball_id (balls (gameLoop world redirectState) ! 1) = ball_id (balls redirectState ! 1) \<and>
   vx (balls (gameLoop world redirectState) ! 1) = - 4 \<and>
   vy (balls (gameLoop world redirectState) ! 1) = 0"
    by (simp add: frame_eval_defs redirectState_def sqrt_16 createInitialTiles_length)
  have b: "tiles reconvertState ! 2 ! 9 = Tile Left \<and>
   map team (balls reconvertState) = [Right, Left] \<and>
   map_option (\<lambda>pk. (cellRow world (pk_ball pk), cellCol world (pk_ball pk)))
     (startPick world 1 (ballLoopUpto world (tiles reconvertState) (initLoop world reconvertState) 1))
     = Some (2, 9) \<and>
   l_newTiles (ballLoopUpto world (tiles reconvertState) (initLoop world reconvertState) 1) ! 2 ! 9
     = Tile Right \<and>
   l_newTiles (ballLoop world (tiles reconvertState) (initLoop world reconvertState)) ! 2 ! 9
     = Tile Left \<and>
   vx (balls reconvertState ! 1) = 0 \<and> vy (balls reconvertState ! 1) = 4 \<and>
   ball_id (balls (gameLoop world reconvertState) ! 1) = ball_id (balls reconvertState ! 1) \<and>
   vx (balls (gameLoop world reconvertState) ! 1) = 0 \<and>
   vy (balls (gameLoop world reconvertState) ! 1) = 4"
    by (simp add: frame_eval_defs reconvertState_def sqrt_16 createInitialTiles_length)
  from a b show ?thesis by (simp only: simp_thms)
qed

subsection \<open>Splits and the number of live balls\<close>




subsection \<open>Clones, from creation to removal\<close>

lemma ballLoopUpto_news:
  assumes "l_newBalls st = []"
  shows "\<forall>c. New c \<in> set (l_newBalls (ballLoopUpto inp tr st k)) \<longrightarrow>
           isClone c \<and> cloneExpires c = 2 * POWERUP_DURATION \<and> frozen c = 0"
proof (induction k)
  case 0
  show ?case by (simp add: ballLoopUpto_0 assms)
next
  case (Suc k)
  let ?sk = "ballLoopUpto inp tr st k"
  from processBall_newBalls [of inp tr k ?sk] obtain cs where
    nb: "l_newBalls (processBall inp tr k ?sk)
           = l_newBalls ?sk @ map New cs @ (if cloneExpiry (l_balls ?sk ! k) = None then [] else [Old k])"
    and cl: "\<forall>c \<in> set cs. isClone c \<and> cloneExpires c = 2 * POWERUP_DURATION \<and> frozen c = 0 \<and>
                        team c = team (l_balls ?sk ! k)"
    by blast
  show ?case
  proof (intro allI impI)
    fix c assume "New c \<in> set (l_newBalls (ballLoopUpto inp tr st (Suc k)))"
    then have "New c \<in> set (l_newBalls ?sk) \<or> c \<in> set cs"
      by (auto simp: ballLoopUpto_Suc nb split: if_splits)
    then show "isClone c \<and> cloneExpires c = 2 * POWERUP_DURATION \<and> frozen c = 0"
      using Suc cl by blast
  qed
qed

lemma frame_new_clone:
  assumes "idsOk s" "b' \<in> set (balls (gameLoop inp s))" "ballIdCounter s \<le> ball_id b'"
  shows "isClone b'" "cloneExpires b' = 360" "frozen b' = 0"
proof -
  let ?L = "ballLoop inp (tiles s) (initLoop inp s)"
  have "New b' \<in> set (l_newBalls ?L)"
  proof (rule disjE [OF frame_member [OF assms(1,2)]])
    assume "\<exists>j < length (balls s). cloneExpiry (balls s ! j) \<noteq> None \<and> b' = l_balls ?L ! j \<and>
            ball_id b' = ball_id (balls s ! j)"
    then obtain j where "j < length (balls s)" "ball_id b' = ball_id (balls s ! j)" by blast
    then have "ball_id b' < ballIdCounter s" using assms(1) by (simp add: idsOk_def)
    with assms(3) show ?thesis by simp
  next
    assume "ballIdCounter s \<le> ball_id b' \<and> ball_id b' < ballIdCounter (gameLoop inp s) \<and>
          New b' \<in> set (l_newBalls ?L)"
    then show ?thesis by simp
  qed
  then have "isClone b' \<and> cloneExpires b' = 2 * POWERUP_DURATION \<and> frozen b' = 0"
    using ballLoopUpto_news [of "initLoop inp s" inp "tiles s" "length (balls s)"]
    by (simp add: ballLoop_def initLoop_fields)
  then show "isClone b'" "cloneExpires b' = 360" "frozen b' = 0"
    by (simp_all add: POWERUP_DURATION_def)
qed

lemma split_frame_eval:
  "length (balls (gameLoop world splitState)) = 3 \<and>
   map ball_id (balls (gameLoop world splitState)) = [2, 0, 1] \<and>
   ball_id (balls (gameLoop world splitState) ! 0) = 2 \<and>
   ballIdCounter splitState = 2"
  by (simp add: frame_eval_defs splitState_def makeClone_def)


text \<open>
  C8. A ball of the live set at the end of a frame whose id was issued in that frame is a
  clone created by a split pickup of the frame; it has \<open>cloneExpires = 360\<close>. After
  \<open>k < 360\<close> further frames, whatever their inputs, a ball with its id is live and has
  \<open>cloneExpires = 360 - k\<close>; after 360 frames and ever after, no ball with its id is live.
  In the frame that removes it, its turn only decrements \<open>cloneExpires\<close> to 0: the rest of
  the loop state (\<open>newBalls\<close>, power-ups, tiles, counters) and the ball's other fields are
  not touched.
\<close>

theorem C8_clone_lifetime:
  assumes "idsOk s" and "b \<in> set (balls (gameLoop inp0 s))" and "ballIdCounter s \<le> ball_id b"
  shows "isClone b \<and> cloneExpires b = 360 \<and>
         (length inps < 360 \<longrightarrow>
            (\<exists>b' \<in> set (balls (run inps (gameLoop inp0 s))). ball_id b' = ball_id b \<and>
               isClone b' \<and> cloneExpires b' = 360 - int (length inps))) \<and>
         (360 \<le> length inps \<longrightarrow>
            (\<forall>b' \<in> set (balls (run inps (gameLoop inp0 s))). ball_id b' \<noteq> ball_id b)) \<and>
         (\<forall>inp tr i st. isClone (l_balls st ! i) \<and> cloneExpires (l_balls st ! i) = 1 \<longrightarrow>
            processBall inp tr i st
              = st\<lparr>l_balls := (l_balls st)[i := (l_balls st ! i)\<lparr>cloneExpires := 0\<rparr>]\<rparr>)"
proof -
  note n = frame_new_clone [OF assms]
  have ok: "idsOk (gameLoop inp0 s)" using assms(1) by (rule gameLoop_idsOk)
  have c: "cloneExpires b = int 360" using n(2) by simp
  have "(length inps < 360 \<longrightarrow>
            (\<exists>b' \<in> set (balls (run inps (gameLoop inp0 s))). ball_id b' = ball_id b \<and>
               isClone b' \<and> cloneExpires b' = int 360 - int (length inps))) \<and>
         (360 \<le> length inps \<longrightarrow>
            (\<forall>b' \<in> set (balls (run inps (gameLoop inp0 s))). ball_id b' \<noteq> ball_id b))"
    using ok assms(2) n(1) c by (rule clone_lifetime) simp
  moreover have "\<forall>inp tr i st. isClone (l_balls st ! i) \<and> cloneExpires (l_balls st ! i) = 1 \<longrightarrow>
            processBall inp tr i st
              = st\<lparr>l_balls := (l_balls st)[i := (l_balls st ! i)\<lparr>cloneExpires := 0\<rparr>]\<rparr>"
  proof (intro allI impI)
    fix inp :: FrameInput and tr :: "Tile list list" and i :: nat and st :: Loop
    assume h: "isClone (l_balls st ! i) \<and> cloneExpires (l_balls st ! i) = 1"
    then have "cloneExpiry (l_balls st ! i) = None" by (simp add: cloneExpiry_None)
    from processBall_expired [OF this, of inp tr] h
    show "processBall inp tr i st
              = st\<lparr>l_balls := (l_balls st)[i := (l_balls st ! i)\<lparr>cloneExpires := 0\<rparr>]\<rparr>"
      by simp
  qed
  ultimately show ?thesis using n(1,2) by simp
qed

theorem C8_clone_lifetime_witness:
  "idsOk splitState \<and>
   map ball_id (balls (gameLoop world splitState)) = [2, 0, 1] \<and>
   ballIdCounter splitState = 2 \<and>
   isClone (balls (gameLoop world splitState) ! 0) \<and>
   cloneExpires (balls (gameLoop world splitState) ! 0) = 360 \<and>
   (\<exists>b' \<in> set (balls (run [world, world] (gameLoop world splitState))).
      ball_id b' = 2 \<and> isClone b' \<and> cloneExpires b' = 358)"
proof -
  let ?b = "balls (gameLoop world splitState) ! 0"
  have ok: "idsOk splitState"
    by (simp add: idsOk_def splitState_def mkBall_def)
  have m: "?b \<in> set (balls (gameLoop world splitState))"
    using split_frame_eval by (intro nth_mem) simp
  have i: "ballIdCounter splitState \<le> ball_id ?b"
    using split_frame_eval by simp
  from C8_clone_lifetime [OF ok m i, of "[world, world]"] ok split_frame_eval
  show ?thesis by simp
qed

subsection \<open>The spawn step and the registry of a frame\<close>

lemma filter_filter_ids:
  "filter (\<lambda>p. f p \<notin> f ` set B) (filter (\<lambda>p. f p \<notin> f ` set A) xs)
     = filter (\<lambda>p. f p \<notin> f ` set (A @ B)) xs"
  by (induction xs) auto

lemma ballLoopUpto_powerUps_filter:
  "l_powerUps (ballLoopUpto inp tr st k)
     = filter (\<lambda>p. pu_id p \<notin> pu_id ` set (pickedUpto inp tr st k)) (l_powerUps st)"
proof (induction k)
  case 0
  show ?case by (simp add: ballLoopUpto_0 pickedUpto_def)
next
  case (Suc k)
  show ?case
    by (simp only: ballLoopUpto_Suc processBall_powerUps Suc pickedUpto_Suc filter_filter_ids)
qed

lemma initLoop_registry:
  "l_powerUps (initLoop inp s)
     = (if (frameCount s + 1) mod 300 = 0 \<and> length (powerUps s) < 3
        then powerUps s @ [spawnPowerUp inp (powerUpIdCounter s)] else powerUps s)"
  by (simp add: initLoop_fields trySpawn_def POWERUP_SPAWN_INTERVAL_def)

lemma gameLoop_registry:
  "powerUps (gameLoop inp s)
     = filter (\<lambda>p. pu_id p \<notin> pu_id ` set (framePicked inp s))
         (if (frameCount s + 1) mod 300 = 0 \<and> length (powerUps s) < 3
          then powerUps s @ [spawnPowerUp inp (powerUpIdCounter s)] else powerUps s)"
  using ballLoopUpto_powerUps_filter [of inp "tiles s" "initLoop inp s" "length (balls s)"]
  by (simp only: gameLoop_fields ballLoop_def initLoop_fields(1) framePicked_pickedUpto
      initLoop_registry)

lemma sqrt_less_iff_square: "0 \<le> b \<Longrightarrow> (sqrt a < b) = (a < b * b)"
  using real_sqrt_less_iff [of a "b * b"] by simp

lemma spawn_frame_eval:
  "framePicked world spawnState = [] \<and>
   (frameCount spawnState + 1) mod 300 = 0 \<and> length (powerUps spawnState) < 3 \<and>
   powerUpIdCounter spawnState = 0 \<and> powerUps spawnState = []"
  by (simp add: framePicked_def frame_eval_defs spawnState_def spawnPowerUp_def
      sqrt_less_iff_square)


text \<open>
  C9, amended with the size of the world; the world's size and the range of the random
  draws bear on the position only. In every frame, whatever the world: the registry that
  the frame's pickup checks start from is the previous registry, with one new power-up
  appended exactly when the frame index \<open>frameCount + 1\<close> is a multiple of 300 and fewer
  than 3 are active; the registry at the end of the frame is that list without the
  power-ups picked up in the frame; the id counter grows by 1 when a power-up is spawned
  and not at all otherwise; and the registry grows by at most one. With random draws in
  \<open>[0, 1)\<close> and a world at least 60 wide and 60 high, the spawned power-up lies within
  \<open>[30, width - 30] \<times> [30, height - 30]\<close>. From the initial state on, at most 3 power-ups
  are active at every frame boundary.
\<close>

theorem C9_spawn:
  "l_powerUps (initLoop inp s)
     = (if (frameCount s + 1) mod 300 = 0 \<and> length (powerUps s) < 3
        then powerUps s @ [spawnPowerUp inp (powerUpIdCounter s)] else powerUps s) \<and>
   powerUps (gameLoop inp s)
     = filter (\<lambda>p. pu_id p \<notin> pu_id ` set (framePicked inp s))
         (if (frameCount s + 1) mod 300 = 0 \<and> length (powerUps s) < 3
          then powerUps s @ [spawnPowerUp inp (powerUpIdCounter s)] else powerUps s) \<and>
   powerUpIdCounter (gameLoop inp s)
     = powerUpIdCounter s +
         (if (frameCount s + 1) mod 300 = 0 \<and> length (powerUps s) < 3 then 1 else 0) \<and>
   length (powerUps (gameLoop inp s)) \<le> length (powerUps s) + 1 \<and>
   fst (trySpawn inp fc ps ctr)
     = (if fc mod 300 = 0 \<and> length ps < 3 then ps @ [spawnPowerUp inp ctr] else ps) \<and>
   (0 \<le> rndX inp \<and> rndX inp < 1 \<and> 0 \<le> rndY inp \<and> rndY inp < 1 \<and>
    60 \<le> width inp \<and> 60 \<le> height inp \<longrightarrow>
      30 \<le> pu_x (spawnPowerUp inp ctr) \<and> pu_x (spawnPowerUp inp ctr) \<le> width inp - 30 \<and>
      30 \<le> pu_y (spawnPowerUp inp ctr) \<and> pu_y (spawnPowerUp inp ctr) \<le> height inp - 30) \<and>
   length (powerUps (run inps (initialState tw th r1 r2))) \<le> 3"
proof -
  let ?spawned = "if (frameCount s + 1) mod 300 = 0 \<and> length (powerUps s) < 3
        then powerUps s @ [spawnPowerUp inp (powerUpIdCounter s)] else powerUps s"
  have a: "l_powerUps (initLoop inp s) = ?spawned" by (rule initLoop_registry)
  have b: "powerUps (gameLoop inp s)
     = filter (\<lambda>p. pu_id p \<notin> pu_id ` set (framePicked inp s)) ?spawned"
    by (rule gameLoop_registry)
  have c: "powerUpIdCounter (gameLoop inp s)
           = powerUpIdCounter s +
               (if (frameCount s + 1) mod 300 = 0 \<and> length (powerUps s) < 3 then 1 else 0)"
    by (simp add: gameLoop_fields trySpawn_def POWERUP_SPAWN_INTERVAL_def)
  have "length (powerUps (gameLoop inp s)) \<le> length ?spawned"
    unfolding b by (rule length_filter_le)
  also have "\<dots> \<le> length (powerUps s) + 1" by simp
  finally have d: "length (powerUps (gameLoop inp s)) \<le> length (powerUps s) + 1" .
  have e: "fst (trySpawn inp fc ps ctr)
           = (if fc mod 300 = 0 \<and> length ps < 3 then ps @ [spawnPowerUp inp ctr] else ps)"
    by (simp add: trySpawn_def POWERUP_SPAWN_INTERVAL_def)
  have f: "0 \<le> rndX inp \<and> rndX inp < 1 \<and> 0 \<le> rndY inp \<and> rndY inp < 1 \<and>
    60 \<le> width inp \<and> 60 \<le> height inp \<longrightarrow>
      30 \<le> pu_x (spawnPowerUp inp ctr) \<and> pu_x (spawnPowerUp inp ctr) \<le> width inp - 30 \<and>
      30 \<le> pu_y (spawnPowerUp inp ctr) \<and> pu_y (spawnPowerUp inp ctr) \<le> height inp - 30"
  proof
    assume h: "0 \<le> rndX inp \<and> rndX inp < 1 \<and> 0 \<le> rndY inp \<and> rndY inp < 1 \<and>
      60 \<le> width inp \<and> 60 \<le> height inp"
    then have x: "30 \<le> rndX inp * (width inp - 60) + 30"
        "rndX inp * (width inp - 60) + 30 \<le> width inp - 30"
      and y: "30 \<le> rndY inp * (height inp - 60) + 30"
        "rndY inp * (height inp - 60) + 30 \<le> height inp - 30"
      using spawn_position [of "rndX inp" "width inp"] spawn_position [of "rndY inp" "height inp"]
      by simp_all
    then show "30 \<le> pu_x (spawnPowerUp inp ctr) \<and> pu_x (spawnPowerUp inp ctr) \<le> width inp - 30 \<and>
      30 \<le> pu_y (spawnPowerUp inp ctr) \<and> pu_y (spawnPowerUp inp ctr) \<le> height inp - 30"
      by (simp add: spawnPowerUp_def)
  qed
  have "length (powerUps (initialState tw th r1 r2)) \<le> 3"
    by (simp add: initialState_def createInitialBalls_def Let_def)
  then have g: "length (powerUps (run inps (initialState tw th r1 r2))) \<le> 3"
    by (rule run_powerUps_length)
  from a b c d e f g show ?thesis by (simp only: simp_thms)
qed

theorem C9_spawn_witness:
  "0 \<le> rndX world \<and> rndX world < 1 \<and> 0 \<le> rndY world \<and> rndY world < 1 \<and>
   60 \<le> width world \<and> 60 \<le> height world \<and>
   (frameCount spawnState + 1) mod 300 = 0 \<and> powerUps spawnState = [] \<and>
   powerUps (gameLoop world spawnState) = [spawnPowerUp world 0] \<and>
   powerUpIdCounter (gameLoop world spawnState) = 1 \<and>
   pu_x (spawnPowerUp world 0) = 400 \<and> pu_y (spawnPowerUp world 0) = 240 \<and>
   30 \<le> pu_x (spawnPowerUp world 0) \<and> pu_x (spawnPowerUp world 0) \<le> width world - 30 \<and>
   30 \<le> pu_y (spawnPowerUp world 0) \<and> pu_y (spawnPowerUp world 0) \<le> height world - 30"
proof -
  have h: "0 \<le> rndX world \<and> rndX world < 1 \<and> 0 \<le> rndY world \<and> rndY world < 1 \<and>
    60 \<le> width world \<and> 60 \<le> height world"
    by (simp add: world_def)
  have e: "pu_x (spawnPowerUp world 0) = 400" "pu_y (spawnPowerUp world 0) = 240"
    by (simp_all add: spawnPowerUp_def world_def)
  note t = C9_spawn [of world spawnState 300 "[]" 0 "[]" 40 40 "1/2" "1/2"]
  from t h have pos: "30 \<le> pu_x (spawnPowerUp world 0) \<and>
      pu_x (spawnPowerUp world 0) \<le> width world - 30 \<and>
      30 \<le> pu_y (spawnPowerUp world 0) \<and> pu_y (spawnPowerUp world 0) \<le> height world - 30"
    by blast
  from t have "powerUps (gameLoop world spawnState)
     = filter (\<lambda>p. pu_id p \<notin> pu_id ` set (framePicked world spawnState))
         (if (frameCount spawnState + 1) mod 300 = 0 \<and> length (powerUps spawnState) < 3
          then powerUps spawnState @ [spawnPowerUp world (powerUpIdCounter spawnState)]
          else powerUps spawnState)"
    by blast
  then have reg: "powerUps (gameLoop world spawnState) = [spawnPowerUp world 0]"
    using spawn_frame_eval by simp
  from t have "powerUpIdCounter (gameLoop world spawnState)
     = powerUpIdCounter spawnState +
         (if (frameCount spawnState + 1) mod 300 = 0 \<and> length (powerUps spawnState) < 3
          then 1 else 0)"
    by blast
  then have ctr: "powerUpIdCounter (gameLoop world spawnState) = 1"
    using spawn_frame_eval by simp
  from h e pos reg ctr spawn_frame_eval show ?thesis by simp
qed

end
